theory Spec2Isabelle
  imports Main "HOL-Library.Sublist" "HOL-Library.AList"
begin

section \<open>Strings and paths\<close>

text \<open>
  A Python \<open>str\<close> is modelled as a \<open>string\<close> (a list of 8-bit characters): ASCII text
  is one character per letter, any other text stands as its UTF-8 bytes. The byte of a
  dot or of a slash never occurs inside a multi-byte sequence, so prefixes, suffixes,
  substrings and the splitting of paths agree with Python's on code points.

  \<open>str.lower\<close> follows the case mappings of the Unicode character database, a table of
  the Python runtime and not of this program. The program is modelled for an arbitrary
  lower-casing function: \<open>should_skip_file\<close> takes it as an argument, and the
  environment of a run provides it (\<open>str_lower\<close>). \<open>ascii_lower\<close> is what \<open>str.lower\<close>
  does to a text whose only cased characters are ASCII letters; the examples use it on
  such texts.
\<close>

definition lower_char :: "char \<Rightarrow> char" where
  "lower_char c =
     (case map_of (zip ''ABCDEFGHIJKLMNOPQRSTUVWXYZ'' ''abcdefghijklmnopqrstuvwxyz'') c of
        Some l \<Rightarrow> l
      | None \<Rightarrow> c)"

definition ascii_lower :: "string \<Rightarrow> string" where
  "ascii_lower s = map lower_char s"

text \<open>
  The characters of a string, each as its own string: a character begins at a byte that
  is not a continuation byte of UTF-8 (\<open>0x80\<close> to \<open>0xBF\<close>) and takes the continuation
  bytes that follow it.
\<close>

definition continuation :: "char \<Rightarrow> bool" where
  "continuation c = (128 \<le> (of_char c :: nat) \<and> (of_char c :: nat) < 192)"

definition code_points :: "string \<Rightarrow> string list" where
  "code_points s =
     snd (foldr (\<lambda>c (pending, found).
                   if continuation c then (c # pending, found)
                   else ([], (c # pending) # found)) s ([], []))"

definition startswith :: "string \<Rightarrow> string \<Rightarrow> bool" where
  "startswith s p = (take (length p) s = p)"

definition endswith :: "string \<Rightarrow> string \<Rightarrow> bool" where
  "endswith s p = (length p \<le> length s \<and> drop (length s - length p) s = p)"

text \<open>\<open>str_in p s\<close> is Python's \<open>p in s\<close> on strings: \<open>p\<close> occurs in \<open>s\<close>.\<close>

fun str_in :: "string \<Rightarrow> string \<Rightarrow> bool" where
  "str_in p [] = (p = [])"
| "str_in p (c # s) = (startswith (c # s) p \<or> str_in p s)"

text \<open>\<open>str.rfind\<close> for one character: the last index where it stands, if any.\<close>

definition rfind :: "char \<Rightarrow> string \<Rightarrow> nat option" where
  "rfind c s =
     (if c \<in> set s then Some (length s - 1 - length (takeWhile (\<lambda>x. x \<noteq> c) (rev s)))
      else None)"

definition rstrip :: "char \<Rightarrow> string \<Rightarrow> string" where
  "rstrip c s = rev (dropWhile (\<lambda>x. x = c) (rev s))"

text \<open>
  The functions of \<open>posixpath\<close> the program calls, as the standard library defines
  them (separator \<open>/\<close>, no alternative separator, extension separator \<open>.\<close>).
\<close>

type_synonym path = string

definition os_path_join :: "path \<Rightarrow> string \<Rightarrow> path" where
  "os_path_join a b =
     (if startswith b ''/'' then b
      else if a = [] \<or> endswith a ''/'' then a @ b
      else a @ ''/'' @ b)"

text \<open>
  \<open>os.path.splitext\<close>: the split is at the last dot, when that dot comes after the last
  slash and some character between the two is not a dot; otherwise the extension is empty.
\<close>

definition splitext :: "path \<Rightarrow> string \<times> string" where
  "splitext p =
     (case rfind (CHR ''.'') p of
        None \<Rightarrow> (p, [])
      | Some dotIndex \<Rightarrow>
          let filenameIndex = (case rfind (CHR ''/'') p of None \<Rightarrow> 0 | Some sepIndex \<Rightarrow> sepIndex + 1)
          in if filenameIndex \<le> dotIndex \<and>
                list_ex (\<lambda>c. c \<noteq> CHR ''.'') (take (dotIndex - filenameIndex) (drop filenameIndex p))
             then (take dotIndex p, drop dotIndex p)
             else (p, []))"

definition basename :: "path \<Rightarrow> string" where
  "basename p = (case rfind (CHR ''/'') p of None \<Rightarrow> p | Some i \<Rightarrow> drop (i + 1) p)"

definition dirname :: "path \<Rightarrow> path" where
  "dirname p =
     (let head = (case rfind (CHR ''/'') p of None \<Rightarrow> [] | Some i \<Rightarrow> take (i + 1) p)
      in if head \<noteq> [] \<and> head \<noteq> replicate (length head) (CHR ''/'')
         then rstrip (CHR ''/'') head else head)"

section \<open>The skip filter\<close>

fun skip_loop :: "string \<Rightarrow> string list \<Rightarrow> bool" where
  "skip_loop lower_name [] = False"
| "skip_loop lower_name (pattern # rest) =
     (if startswith pattern ''.'' \<and> endswith lower_name pattern then True
      else if str_in pattern lower_name then True
      else skip_loop lower_name rest)"

text \<open>\<open>should_skip_file(filename, skip_patterns)\<close>, with \<open>str.lower\<close> as \<open>lower\<close>.\<close>

definition should_skip_file :: "(string \<Rightarrow> string) \<Rightarrow> string \<Rightarrow> string list \<Rightarrow> bool" where
  "should_skip_file lower filename skip_patterns = skip_loop (lower filename) skip_patterns"

section \<open>Configuration\<close>

text \<open>
  The values \<open>json.load\<close> returns. Numbers are integers here. A Python \<open>dict\<close> keeps its
  keys in insertion order, so it is an association list with distinct keys:
  \<open>AList.update\<close> overwrites the value of a key the list has and appends a new key at
  the end, as assigning to a key of a \<open>dict\<close> does.
\<close>

datatype json =
    JNull
  | JBool bool
  | JNum int
  | JStr string
  | JArr "json list"
  | JObj "(string \<times> json) list"

type_synonym dict = "(string \<times> json) list"

text \<open>
  The exceptions the program can meet. \<open>NonStringKey\<close> is not an exception of Python: it
  marks the one place where this model stops, a key that is not a string on its way into
  a \<open>dict\<close> (see \<open>pair_of\<close>).
\<close>

datatype py_error =
    TypeError
  | ValueError
  | AttributeError
  | JSONDecodeError
  | UnicodeDecodeError
  | KeyError
  | UnboundLocalError
  | FileNotFoundError
  | FileExistsError
  | PermissionError
  | IsADirectoryError
  | NotADirectoryError
  | ShutilError
  | NonStringKey

text \<open>
  \<open>dict.update(v)\<close> with a value read from JSON. A mapping is merged key by key. Anything
  else is read as a sequence of key/value pairs: a number, a boolean or \<open>null\<close> is not
  iterable (TypeError); the elements of a string are its characters, which are not pairs
  (ValueError unless the string is empty); the elements of a list must each be a sequence
  of two, the first a hashable key (a string of two characters is such a sequence). The pairs before a failing element are already stored,
  so an update that raises returns the dict as far as it got. A pair whose key is a number,
  a boolean or \<open>null\<close> would store a key that is not a string; dicts are keyed by strings
  here and the update stops there with \<open>NonStringKey\<close>.
\<close>

fun pair_of :: "json \<Rightarrow> py_error + (string \<times> json)" where
  "pair_of (JArr [JStr k, v]) = Inr (k, v)"
| "pair_of (JArr [JArr ks, v]) = Inl TypeError"
| "pair_of (JArr [JObj ks, v]) = Inl TypeError"
| "pair_of (JArr [k, v]) = Inl NonStringKey"
| "pair_of (JArr xs) = Inl ValueError"
| "pair_of (JStr s) =
     (case code_points s of [a, b] \<Rightarrow> Inr (a, JStr b) | _ \<Rightarrow> Inl ValueError)"
| "pair_of (JObj [(k1, v1), (k2, v2)]) = Inr (k1, JStr k2)"
| "pair_of (JObj kvs) = Inl ValueError"
| "pair_of v = Inl TypeError"

fun update_pairs :: "dict \<Rightarrow> json list \<Rightarrow> dict \<times> py_error option" where
  "update_pairs d [] = (d, None)"
| "update_pairs d (x # xs) =
     (case pair_of x of
        Inl e \<Rightarrow> (d, Some e)
      | Inr (k, v) \<Rightarrow> update_pairs (AList.update k v d) xs)"

fun dict_update :: "dict \<Rightarrow> json \<Rightarrow> dict \<times> py_error option" where
  "dict_update d (JObj kvs) = (fold (\<lambda>(k, v). AList.update k v) kvs d, None)"
| "dict_update d (JArr xs) = update_pairs d xs"
| "dict_update d (JStr s) = (d, if s = [] then None else Some ValueError)"
| "dict_update d v = (d, Some TypeError)"

text \<open>
  The module-level \<open>DEFAULT_CONFIG\<close> is one dict object whose value under
  \<open>categories\<close> is another dict object. \<open>DEFAULT_CONFIG.copy()\<close> copies the outer
  dict only, so the copy and the original share the inner object. The store holds the
  dict objects by address; a value of an outer dict is plain data or the address of a
  dict object. Lists are never changed by the program and stand as plain data.
\<close>

type_synonym addr = nat

datatype pyval = Plain json | DictRef addr

type_synonym config_dict = "(string \<times> pyval) list"

record pystate =
  heap :: "addr \<Rightarrow> dict option"
  DEFAULT_CONFIG :: config_dict

definition cat_pictures :: string where
  "cat_pictures = [CHR 0xE5, CHR 0x9B, CHR 0xBE, CHR 0xE7, CHR 0x89, CHR 0x87]"

definition cat_documents :: string where
  "cat_documents = [CHR 0xE6, CHR 0x96, CHR 0x87, CHR 0xE6, CHR 0xA1, CHR 0xA3]"

definition cat_archives :: string where
  "cat_archives = [CHR 0xE5, CHR 0x8E, CHR 0x8B, CHR 0xE7, CHR 0xBC, CHR 0xA9, CHR 0xE5, CHR 0x8C, CHR 0x85]"

definition cat_code :: string where
  "cat_code = [CHR 0xE4, CHR 0xBB, CHR 0xA3, CHR 0xE7, CHR 0xA0, CHR 0x81]"

definition cat_executables :: string where
  "cat_executables = [CHR 0xE5, CHR 0x8F, CHR 0xAF, CHR 0xE6, CHR 0x89, CHR 0xA7, CHR 0xE8, CHR 0xA1, CHR 0x8C,
     CHR 0xE6, CHR 0x96, CHR 0x87, CHR 0xE4, CHR 0xBB, CHR 0xB6]"

definition cat_shortcuts :: string where
  "cat_shortcuts = [CHR 0xE5, CHR 0xBF, CHR 0xAB, CHR 0xE6, CHR 0x8D, CHR 0xB7, CHR 0xE6, CHR 0x96, CHR 0xB9,
     CHR 0xE5, CHR 0xBC, CHR 0x8F]"

definition cat_media :: string where
  "cat_media = [CHR 0xE5, CHR 0xAA, CHR 0x92, CHR 0xE4, CHR 0xBD, CHR 0x93]"

text \<open>The category table of \<open>DEFAULT_CONFIG\<close>, in the order the source writes it.\<close>

definition default_categories :: "(string \<times> string list) list" where
  "default_categories =
     [(cat_pictures, [''.jpg'', ''.jpeg'', ''.png'', ''.gif'', ''.bmp'', ''.webp'']),
      (cat_documents, [''.pdf'', ''.docx'', ''.doc'', ''.xlsx'', ''.pptx'', ''.txt'']),
      (cat_archives, [''.zip'', ''.rar'', ''.7z'', ''.tar'', ''.gz'']),
      (cat_code, [''.py'', ''.js'', ''.html'', ''.css'', ''.java'', ''.c'', ''.cpp'']),
      (cat_executables, [''.exe'', ''.msi'', ''.bat'', ''.cmd'']),
      (cat_shortcuts, [''.lnk'', ''.url'', ''.desktop'']),
      (cat_media, [''.mp3'', ''.mp4'', ''.avi'', ''.mov'', ''.wav''])]"

definition default_skip_files :: "string list" where
  "default_skip_files = [''.ini'', ''.db'', ''.tmp'', ''~$'']"

definition strs :: "string list \<Rightarrow> json" where
  "strs xs = JArr (map JStr xs)"

text \<open>The state of the module right after it is loaded: the inner dict at address 0.\<close>

definition initial_state :: pystate where
  "initial_state =
     \<lparr>heap = (\<lambda>a. if a = 0 then Some (map (\<lambda>(c, exts). (c, strs exts)) default_categories) else None),
      DEFAULT_CONFIG =
        [(''skip_files'', Plain (strs default_skip_files)),
         (''backup_log'', Plain (JBool True)),
         (''categories'', DictRef 0)]\<rparr>"

text \<open>
  What \<open>load_config\<close> finds at \<open>config_path\<close>: no path or no such file (the \<open>if\<close> is
  false); a file that \<open>open\<close> or \<open>json.load\<close> raises on; or a document, a JSON object
  with its keys in the order of the file.
\<close>

datatype config_file = NoFile | Unreadable py_error | Document dict

text \<open>
  One turn of the loop \<open>for key in user_config\<close>. \<open>isinstance(config[key], dict)\<close> holds
  for an address of the store and for a dict held as plain data. The update changes the
  object itself: at an address that is the store, and so every dict that holds the address.
\<close>

definition merge_key :: "string \<Rightarrow> json \<Rightarrow> config_dict \<times> pystate \<Rightarrow> (config_dict \<times> pystate) \<times> py_error option" where
  "merge_key key v cs =
     (let (config, st) = cs in
      case map_of config key of
        Some (DictRef a) \<Rightarrow>
          (case heap st a of
             Some d \<Rightarrow>
               let (d', err) = dict_update d v
               in ((config, st\<lparr>heap := (heap st)(a \<mapsto> d')\<rparr>), err)
           | None \<Rightarrow> ((AList.update key (Plain v) config, st), None))
      | Some (Plain (JObj d)) \<Rightarrow>
          let (d', err) = dict_update d v
          in ((AList.update key (Plain (JObj d')) config, st), err)
      | _ \<Rightarrow> ((AList.update key (Plain v) config, st), None))"

fun merge_loop :: "dict \<Rightarrow> config_dict \<times> pystate \<Rightarrow> (config_dict \<times> pystate) \<times> py_error option" where
  "merge_loop [] cs = (cs, None)"
| "merge_loop ((key, v) # rest) cs =
     (case merge_key key v cs of
        (cs', Some e) \<Rightarrow> (cs', Some e)
      | (cs', None) \<Rightarrow> merge_loop rest cs')"

text \<open>
  \<open>load_config\<close> returns the configuration, leaves the module in a new state and may
  print a warning (the exception the \<open>except\<close> clause caught).
\<close>

record load_result =
  config :: config_dict
  state_after :: pystate
  warning :: "py_error option"

definition load_config :: "pystate \<Rightarrow> config_file \<Rightarrow> load_result" where
  "load_config st file =
     (let config = DEFAULT_CONFIG st in
      case file of
        NoFile \<Rightarrow> \<lparr>config = config, state_after = st, warning = None\<rparr>
      | Unreadable e \<Rightarrow> \<lparr>config = config, state_after = st, warning = Some e\<rparr>
      | Document user_config \<Rightarrow>
          let ((config', st'), err) = merge_loop user_config (config, st)
          in \<lparr>config = config', state_after = st', warning = err\<rparr>)"

text \<open>What a configuration shows when it is read: every address replaced by its dict.\<close>

definition deref :: "pystate \<Rightarrow> pyval \<Rightarrow> json" where
  "deref st v = (case v of Plain j \<Rightarrow> j | DictRef a \<Rightarrow> JObj (case heap st a of Some d \<Rightarrow> d | None \<Rightarrow> []))"

definition view :: "pystate \<Rightarrow> config_dict \<Rightarrow> dict" where
  "view st c = map (\<lambda>(k, v). (k, deref st v)) c"

section \<open>The file system\<close>

text \<open>
  A record of the transaction log and the log itself, with the keys of the JSON document
  the program writes.
\<close>

record move_record =
  original :: path
  new_location :: path

record transaction_log =
  timestamp :: string
  operations :: "move_record list"
  desktop_path :: path

text \<open>
  What a file holds, as far as the program can tell: bytes that are not UTF-8 (reading the
  file raises UnicodeDecodeError), a text that is not a JSON document (\<open>json.load\<close>
  raises JSONDecodeError), or a JSON document.
\<close>

datatype content = Undecodable | Bytes string | Json json

text \<open>The JSON document \<open>json.dump\<close> writes for a log, with the keys in the order of the source.\<close>

definition record_json :: "move_record \<Rightarrow> json" where
  "record_json r = JObj [(''original'', JStr (original r)), (''new_location'', JStr (new_location r))]"

definition log_json :: "transaction_log \<Rightarrow> json" where
  "log_json l =
     JObj [(''timestamp'', JStr (timestamp l)),
           (''operations'', JArr (map record_json (operations l))),
           (''desktop_path'', JStr (desktop_path l))]"

datatype node = File content | Dir

text \<open>
  The file system maps the paths that exist to what is there, and marks the paths where
  the operating system refuses to create, replace or remove an entry (PermissionError). Paths are the strings the program
  builds: two different strings are two different places (no links, no \<open>.\<close> or \<open>..\<close>,
  no doubled slashes), and the directories above a path are not tracked: they are taken
  to exist.
\<close>

record filesystem =
  nodes :: "path \<Rightarrow> node option"
  denied :: "path \<Rightarrow> bool"

definition os_path_exists :: "filesystem \<Rightarrow> path \<Rightarrow> bool" where
  "os_path_exists fs p = (nodes fs p \<noteq> None)"

definition os_path_isfile :: "filesystem \<Rightarrow> path \<Rightarrow> bool" where
  "os_path_isfile fs p = (case nodes fs p of Some (File c) \<Rightarrow> True | _ \<Rightarrow> False)"

definition os_path_isdir :: "filesystem \<Rightarrow> path \<Rightarrow> bool" where
  "os_path_isdir fs p = (nodes fs p = Some Dir)"

text \<open>\<open>os.makedirs(p, exist_ok=True)\<close>.\<close>

definition os_makedirs :: "filesystem \<Rightarrow> path \<Rightarrow> py_error + filesystem" where
  "os_makedirs fs p =
     (if p = [] then Inl FileNotFoundError
      else case nodes fs p of
             Some Dir \<Rightarrow> Inr fs
           | Some (File c) \<Rightarrow> Inl FileExistsError
           | None \<Rightarrow>
               if denied fs p then Inl PermissionError
               else Inr (fs\<lparr>nodes := (nodes fs)(p \<mapsto> Dir)\<rparr>))"

text \<open>\<open>within d p\<close>: the path \<open>p\<close> is \<open>d\<close> or lies below it.\<close>

definition within :: "path \<Rightarrow> path \<Rightarrow> bool" where
  "within d p = (p = d \<or> startswith p (d @ ''/''))"

text \<open>
  What \<open>shutil.move\<close> does once it knows the real destination, which is never an
  existing directory there: \<open>os.rename\<close>, and when that fails its fallback, a copy
  followed by the removal of the source. Each function returns the file system it leaves
  and the exception it raised, if any.

  A regular file replaces what is at the destination. When the system refuses to create
  the destination, nothing changes. When it refuses only to remove the source, the rename
  fails, the copy is made, and the removal of the source raises: the file is then at both
  places. Renaming a path to itself does nothing.

  A directory moves with everything below it. It cannot move into itself
  (\<open>shutil.Error\<close>) nor onto something that exists (\<open>copytree\<close> raises
  FileExistsError). When the system refuses only to remove the source, the tree is copied
  and \<open>rmtree\<close> removes what lies below the source before it fails at the source itself
  (the marks on the paths below a directory are not consulted).
\<close>

definition move_entry :: "filesystem \<Rightarrow> path \<Rightarrow> path \<Rightarrow> filesystem \<times> py_error option" where
  "move_entry fs src real_dst =
     (case nodes fs src of
        None \<Rightarrow> (fs, Some FileNotFoundError)
      | Some (File c) \<Rightarrow>
          if src = real_dst then (fs, None)
          else if denied fs real_dst then (fs, Some PermissionError)
          else if denied fs src then
            (fs\<lparr>nodes := (nodes fs)(real_dst \<mapsto> File c)\<rparr>, Some PermissionError)
          else (fs\<lparr>nodes := ((nodes fs)(src := None))(real_dst \<mapsto> File c)\<rparr>, None)
      | Some Dir \<Rightarrow>
          if within src real_dst then (fs, Some ShutilError)
          else if nodes fs real_dst \<noteq> None then (fs, Some FileExistsError)
          else if denied fs real_dst then (fs, Some PermissionError)
          else if denied fs src then
            (fs\<lparr>nodes :=
                 (\<lambda>p. if within real_dst p then nodes fs (src @ drop (length real_dst) p)
                      else if within src p \<and> p \<noteq> src then None
                      else nodes fs p)\<rparr>,
             Some PermissionError)
          else
            (fs\<lparr>nodes :=
                 (\<lambda>p. if within real_dst p then nodes fs (src @ drop (length real_dst) p)
                      else if within src p then None
                      else nodes fs p)\<rparr>,
             None))"

text \<open>
  \<open>shutil.move(src, dst)\<close>: when \<open>dst\<close> is a directory the source goes into it, under
  its own base name, unless something of that name is there already.
\<close>

definition shutil_move :: "filesystem \<Rightarrow> path \<Rightarrow> path \<Rightarrow> filesystem \<times> py_error option" where
  "shutil_move fs src dst =
     (if os_path_isdir fs dst then
        if src = dst then (fs, None)
        else let real_dst = os_path_join dst (basename (rstrip (CHR ''/'') src))
             in if os_path_exists fs real_dst then (fs, Some ShutilError)
                else move_entry fs src real_dst
      else move_entry fs src dst)"

definition os_remove :: "filesystem \<Rightarrow> path \<Rightarrow> py_error + filesystem" where
  "os_remove fs p =
     (case nodes fs p of
        None \<Rightarrow> Inl FileNotFoundError
      | Some Dir \<Rightarrow> Inl IsADirectoryError
      | Some (File c) \<Rightarrow>
          if denied fs p then Inl PermissionError
          else Inr (fs\<lparr>nodes := (nodes fs)(p := None)\<rparr>))"

text \<open>\<open>open(p, 'w')\<close> and \<open>json.dump\<close> of a log: the file is created or overwritten.\<close>

definition write_log :: "filesystem \<Rightarrow> path \<Rightarrow> transaction_log \<Rightarrow> py_error + filesystem" where
  "write_log fs p l =
     (case nodes fs p of
        Some Dir \<Rightarrow> Inl IsADirectoryError
      | _ \<Rightarrow>
          if denied fs p then Inl PermissionError
          else Inr (fs\<lparr>nodes := (nodes fs)(p \<mapsto> File (Json (log_json l)))\<rparr>))"

text \<open>\<open>open(p, 'r', encoding='utf-8')\<close> and \<open>json.load\<close>.\<close>

definition load_json :: "filesystem \<Rightarrow> path \<Rightarrow> py_error + json" where
  "load_json fs p =
     (case nodes fs p of
        None \<Rightarrow> Inl FileNotFoundError
      | Some Dir \<Rightarrow> Inl IsADirectoryError
      | Some (File Undecodable) \<Rightarrow> Inl UnicodeDecodeError
      | Some (File (Bytes b)) \<Rightarrow> Inl JSONDecodeError
      | Some (File (Json j)) \<Rightarrow> Inr j)"

text \<open>
  What Python does with a value read from JSON: its truth value, \<open>v[key]\<close> for a string
  \<open>key\<close> (only an object can be indexed by a string, and it must have the key), and the
  elements \<open>reversed(v)\<close> gives after \<open>len(v)\<close> was taken (a number or a boolean has no
  length; the elements of a string are its characters, those of an object its keys, as
  from Python 3.8 on).
\<close>

fun truthy :: "json \<Rightarrow> bool" where
  "truthy JNull = False"
| "truthy (JBool b) = b"
| "truthy (JNum n) = (n \<noteq> 0)"
| "truthy (JStr s) = (s \<noteq> [])"
| "truthy (JArr xs) = (xs \<noteq> [])"
| "truthy (JObj kvs) = (kvs \<noteq> [])"

fun subscript :: "json \<Rightarrow> string \<Rightarrow> py_error + json" where
  "subscript (JObj kvs) key = (case map_of kvs key of Some v \<Rightarrow> Inr v | None \<Rightarrow> Inl KeyError)"
| "subscript v key = Inl TypeError"

fun reversed :: "json \<Rightarrow> py_error + json list" where
  "reversed (JArr xs) = Inr (rev xs)"
| "reversed (JStr s) = Inr (map JStr (rev (code_points s)))"
| "reversed (JObj kvs) = Inr (map (\<lambda>(k, v). JStr k) (rev kvs))"
| "reversed v = Inl TypeError"

text \<open>
  An element of the operations read as a record, as the first two lines of the loop body
  read it, provided both values are strings; and a list of elements read so, up to the
  first exception.
\<close>

definition record_of :: "json \<Rightarrow> py_error + move_record" where
  "record_of op =
     (case subscript op ''new_location'' of
        Inl err \<Rightarrow> Inl err
      | Inr src \<Rightarrow>
          (case subscript op ''original'' of
             Inl err \<Rightarrow> Inl err
           | Inr dst \<Rightarrow>
               (case (src, dst) of
                  (JStr s, JStr d) \<Rightarrow> Inr \<lparr>original = d, new_location = s\<rparr>
                | _ \<Rightarrow> Inl TypeError)))"

fun records_of :: "json list \<Rightarrow> py_error + move_record list" where
  "records_of [] = Inr []"
| "records_of (x # xs) =
     (case record_of x of
        Inl err \<Rightarrow> Inl err
      | Inr r \<Rightarrow> (case records_of xs of Inl err \<Rightarrow> Inl err | Inr rs \<Rightarrow> Inr (r # rs)))"

text \<open>
  The log read as records: \<open>open\<close>, \<open>json.load\<close> and
  \<open>backup_log.get('operations', [])\<close>, for a log whose operations are a list of records
  of two strings, or one that has no operations (the key is absent or its value is
  false); otherwise the first exception that reading it so meets.
\<close>

definition read_log :: "filesystem \<Rightarrow> path \<Rightarrow> py_error + move_record list" where
  "read_log fs p =
     (case load_json fs p of
        Inl err \<Rightarrow> Inl err
      | Inr (JObj kvs) \<Rightarrow>
          (case map_of kvs ''operations'' of
             None \<Rightarrow> Inr []
           | Some (JArr xs) \<Rightarrow> records_of xs
           | Some v \<Rightarrow> if truthy v then Inl TypeError else Inr [])
      | Inr v \<Rightarrow> Inl AttributeError)"

section \<open>Organizing\<close>

text \<open>
  The configuration \<open>organize_files\<close> reads, well typed: the skip patterns, the logging
  flag, and the categories with their extensions in the order of the dict. The prompt
  that \<open>silent_mode\<close> gates does nothing but wait and is left out.
\<close>

record config =
  skip_files :: "string list"
  backup_log :: bool
  categories :: "(string \<times> string list) list"

definition default_config :: config where
  "default_config =
     \<lparr>skip_files = default_skip_files, backup_log = True, categories = default_categories\<rparr>"

text \<open>
  What the program asks of its surroundings: the home directory, the names
  \<open>os.listdir\<close> returns for the desktop (in the order it returns them), the time of the
  run in ISO format, the wall-clock time \<open>%H%M%S\<close> at the moment the file of a given
  name is handled, and the \<open>str.lower\<close> of the runtime.
\<close>

record env =
  home :: path
  str_lower :: "string \<Rightarrow> string"
  all_items :: "string list"
  now_iso :: string
  now_hms :: "string \<Rightarrow> string"

definition desktop_dir :: "env \<Rightarrow> path" where
  "desktop_dir e = os_path_join (home e) ''Desktop''"

definition others_name :: string where
  "others_name = [CHR 0xE5, CHR 0x85, CHR 0xB6, CHR 0xE4, CHR 0xBB, CHR 0x96]"

definition log_name :: string where
  "log_name = [CHR 0xE6, CHR 0x96, CHR 0x87, CHR 0xE4, CHR 0xBB, CHR 0xB6, CHR 0xE6, CHR 0x95, CHR 0xB4,
     CHR 0xE7, CHR 0x90, CHR 0x86, CHR 0xE5, CHR 0xA4, CHR 0x87, CHR 0xE4, CHR 0xBB, CHR 0xBD] @ ''.json''"

text \<open>Where the log is written, and where \<open>restore_files\<close> looks for it by default.\<close>

definition default_log_path :: "env \<Rightarrow> path" where
  "default_log_path e = os_path_join (desktop_dir e) log_name"

text \<open>
  The inner loop \<open>for category, extensions in config['categories'].items()\<close> with its
  \<open>break\<close>: the first category whose extensions hold the extension of the file.
\<close>

fun first_category :: "string \<Rightarrow> (string \<times> string list) list \<Rightarrow> string option" where
  "first_category file_ext [] = None"
| "first_category file_ext ((category, extensions) # rest) =
     (if file_ext \<in> set extensions then Some category else first_category file_ext rest)"

text \<open>
  The destination inside a category folder: when something exists there already, the name
  gets the time between its base and its extension.
\<close>

definition new_name :: "env \<Rightarrow> string \<Rightarrow> string" where
  "new_name e filename =
     (let (base, ext) = splitext filename in base @ ''_'' @ now_hms e filename @ ext)"

definition resolve :: "env \<Rightarrow> filesystem \<Rightarrow> path \<Rightarrow> string \<Rightarrow> path" where
  "resolve e fs dst_folder filename =
     (let dst_path = os_path_join dst_folder filename
      in if os_path_exists fs dst_path then os_path_join dst_folder (new_name e filename)
         else dst_path)"

datatype report =
    Moved string string
  | Unclassified string
  | NoPermission string
  | NotFound string
  | Failed string py_error

text \<open>
  The body of the \<open>try\<close> for one file. It gives the file system it leaves behind (a
  move that raises may have left a copy) and either the exception it raised or the line
  it printed with the record of the move.
\<close>

definition process_file ::
  "config \<Rightarrow> env \<Rightarrow> filesystem \<Rightarrow> string \<Rightarrow> filesystem \<times> (py_error + report \<times> move_record)" where
  "process_file cfg e fs filename =
     (let desktop_path = desktop_dir e;
          src_path = os_path_join desktop_path filename;
          file_ext = str_lower e (snd (splitext filename))
      in case first_category file_ext (categories cfg) of
           Some category \<Rightarrow>
             let dst_folder = os_path_join desktop_path category;
                 dst_path = resolve e fs dst_folder filename
             in (case shutil_move fs src_path dst_path of
                   (fs', Some err) \<Rightarrow> (fs', Inl err)
                 | (fs', None) \<Rightarrow>
                     (fs', Inr (Moved filename category,
                                \<lparr>original = src_path, new_location = dst_path\<rparr>)))
         | None \<Rightarrow>
             let others_path = os_path_join desktop_path others_name
             in (case os_makedirs fs others_path of
                   Inl err \<Rightarrow> (fs, Inl err)
                 | Inr fs1 \<Rightarrow>
                     let dst_path = os_path_join others_path filename
                     in (case shutil_move fs1 src_path dst_path of
                           (fs', Some err) \<Rightarrow> (fs', Inl err)
                         | (fs', None) \<Rightarrow>
                             (fs', Inr (Unclassified filename,
                                        \<lparr>original = src_path, new_location = dst_path\<rparr>)))))"

text \<open>The three \<open>except\<close> clauses, in their order.\<close>

definition failure_report :: "string \<Rightarrow> py_error \<Rightarrow> report" where
  "failure_report filename err =
     (if err = PermissionError then NoPermission filename
      else if err = FileNotFoundError then NotFound filename
      else Failed filename err)"

record run_state =
  fs_now :: filesystem
  ops :: "move_record list"
  processed :: nat
  reports :: "report list"

definition organize_step :: "config \<Rightarrow> env \<Rightarrow> string \<Rightarrow> run_state \<Rightarrow> run_state" where
  "organize_step cfg e filename st =
     (case process_file cfg e (fs_now st) filename of
        (fs', Inr (line, record)) \<Rightarrow>
          st\<lparr>fs_now := fs',
             ops := (if backup_log cfg then ops st @ [record] else ops st),
             processed := processed st + 1,
             reports := reports st @ [line]\<rparr>
      | (fs', Inl err) \<Rightarrow>
          st\<lparr>fs_now := fs', reports := reports st @ [failure_report filename err]\<rparr>)"

fun organize_loop :: "config \<Rightarrow> env \<Rightarrow> string list \<Rightarrow> run_state \<Rightarrow> run_state" where
  "organize_loop cfg e [] st = st"
| "organize_loop cfg e (filename # rest) st = organize_loop cfg e rest (organize_step cfg e filename st)"

text \<open>The loop that creates the category folders; it is outside every \<open>try\<close>.\<close>

fun make_dirs :: "filesystem \<Rightarrow> path \<Rightarrow> string list \<Rightarrow> filesystem \<times> py_error option" where
  "make_dirs fs d [] = (fs, None)"
| "make_dirs fs d (category # rest) =
     (case os_makedirs fs (os_path_join d category) of
        Inl err \<Rightarrow> (fs, Some err)
      | Inr fs' \<Rightarrow> make_dirs fs' d rest)"

text \<open>
  The two list comprehensions: the regular files among the listed names, without those
  the skip filter matches.
\<close>

definition desktop_files :: "config \<Rightarrow> env \<Rightarrow> filesystem \<Rightarrow> string list" where
  "desktop_files cfg e fs =
     (let files = filter (\<lambda>f. os_path_isfile fs (os_path_join (desktop_dir e) f)) (all_items e)
      in filter (\<lambda>f. \<not> should_skip_file (str_lower e) f (skip_files cfg)) files)"

record organize_result =
  fs_after :: filesystem
  lines :: "report list"
  moved_count :: nat
  total_files :: nat
  recorded :: "move_record list"
  log_saved :: bool
  raised :: "py_error option"

definition organize_files :: "config \<Rightarrow> env \<Rightarrow> filesystem \<Rightarrow> organize_result" where
  "organize_files cfg e fs =
     (let desktop_path = desktop_dir e in
      if \<not> os_path_isdir fs desktop_path then
        \<lparr>fs_after = fs, lines = [], moved_count = 0, total_files = 0, recorded = [],
         log_saved = False,
         raised = Some (if os_path_exists fs desktop_path then NotADirectoryError
                        else FileNotFoundError)\<rparr>
      else
        let files = desktop_files cfg e fs;
            total = length files
        in case make_dirs fs desktop_path (map fst (categories cfg)) of
             (fs1, Some err) \<Rightarrow>
               \<lparr>fs_after = fs1, lines = [], moved_count = 0, total_files = total,
                recorded = [], log_saved = False, raised = Some err\<rparr>
           | (fs1, None) \<Rightarrow>
               let st = organize_loop cfg e files
                          \<lparr>fs_now = fs1, ops = [], processed = 0, reports = []\<rparr>;
                   done = \<lparr>fs_after = fs_now st, lines = reports st,
                           moved_count = processed st, total_files = total,
                           recorded = ops st, log_saved = False, raised = None\<rparr>
               in if backup_log cfg \<and> ops st \<noteq> [] then
                    (case write_log (fs_now st) (default_log_path e)
                            \<lparr>timestamp = now_iso e, operations = ops st,
                             desktop_path = desktop_path\<rparr> of
                       Inl err \<Rightarrow> done\<lparr>raised := Some err\<rparr>
                     | Inr fs2 \<Rightarrow> done\<lparr>fs_after := fs2, log_saved := True\<rparr>)
                  else done)"

section \<open>Restoring\<close>

datatype restore_line =
    Restored string
  | Missing string
  | RestoreFailed string py_error

datatype restore_end =
    LogNotFound
  | LogFormatError
  | RestoreError py_error
  | NoRecords
  | Completed nat nat

text \<open>
  The body of the inner \<open>try\<close> for a record of two strings, with its \<open>except\<close> clause.
\<close>

definition restore_step :: "filesystem \<Rightarrow> move_record \<Rightarrow> filesystem \<times> restore_line" where
  "restore_step fs op =
     (let src = new_location op;
          dst = original op
      in case os_makedirs fs (dirname dst) of
           Inl err \<Rightarrow> (fs, RestoreFailed (basename dst) err)
         | Inr fs1 \<Rightarrow>
             if os_path_exists fs1 src then
               (case shutil_move fs1 src dst of
                  (fs2, Some err) \<Rightarrow> (fs2, RestoreFailed (basename dst) err)
                | (fs2, None) \<Rightarrow> (fs2, Restored (basename dst)))
             else (fs1, Missing (basename src)))"

record restore_state =
  rfs_now :: filesystem
  success_count :: nat
  printed :: "restore_line list"

definition restore_one :: "move_record \<Rightarrow> restore_state \<Rightarrow> restore_state" where
  "restore_one op st =
     (case restore_step (rfs_now st) op of
        (fs', Restored n) \<Rightarrow>
          \<lparr>rfs_now = fs', success_count = success_count st + 1, printed = printed st @ [Restored n]\<rparr>
      | (fs', line) \<Rightarrow>
          \<lparr>rfs_now = fs', success_count = success_count st, printed = printed st @ [line]\<rparr>)"

text \<open>The loop over elements that are all records of two strings: nothing ends it early.\<close>

fun restore_loop :: "move_record list \<Rightarrow> restore_state \<Rightarrow> restore_state" where
  "restore_loop [] st = st"
| "restore_loop (op # rest) st = restore_loop rest (restore_one op st)"

record restore_result =
  restored_fs :: filesystem
  restore_lines :: "restore_line list"
  ended :: restore_end

text \<open>
  One turn of the loop for an element of any shape. The variable \<open>dst\<close> keeps its value
  from one turn to the next; it is unbound before the first assignment. When the body
  raises before it has two strings, the \<open>except\<close> clause prints
  \<open>os.path.basename(dst)\<close> with the \<open>dst\<close> it finds: a string gives a failure line and
  the loop goes on; an unbound \<open>dst\<close> (UnboundLocalError) or one that is not a string
  (TypeError) makes the clause itself raise, which ends the loop. An element with a string
  under \<open>original\<close> and something else under \<open>new_location\<close> gets as far as
  \<open>os.makedirs\<close> and raises after it (a TypeError here; a number that happens to be an
  open file descriptor can give another exception, with the same line but for its text).
\<close>

definition handler :: "json option \<Rightarrow> py_error \<Rightarrow> restore_state \<Rightarrow> restore_state \<times> py_error option" where
  "handler dst err st =
     (case dst of
        None \<Rightarrow> (st, Some UnboundLocalError)
      | Some (JStr d) \<Rightarrow> (st\<lparr>printed := printed st @ [RestoreFailed (basename d) err]\<rparr>, None)
      | Some v \<Rightarrow> (st, Some TypeError))"

definition restore_entry ::
  "json \<Rightarrow> json option \<Rightarrow> restore_state \<Rightarrow> json option \<times> restore_state \<times> py_error option" where
  "restore_entry op dst st =
     (case subscript op ''new_location'' of
        Inl err \<Rightarrow> (dst, handler dst err st)
      | Inr src \<Rightarrow>
          (case subscript op ''original'' of
             Inl err \<Rightarrow> (dst, handler dst err st)
           | Inr dst' \<Rightarrow>
               (case dst' of
                  JStr d \<Rightarrow>
                    (case src of
                       JStr s \<Rightarrow>
                         (Some dst', restore_one \<lparr>original = d, new_location = s\<rparr> st, None)
                     | _ \<Rightarrow>
                         (case os_makedirs (rfs_now st) (dirname d) of
                            Inl err \<Rightarrow> (Some dst', handler (Some dst') err st)
                          | Inr fs1 \<Rightarrow>
                              (Some dst', handler (Some dst') TypeError (st\<lparr>rfs_now := fs1\<rparr>))))
                | _ \<Rightarrow> (Some dst', handler (Some dst') TypeError st))))"

fun restore_entries :: "json list \<Rightarrow> json option \<Rightarrow> restore_state \<Rightarrow> restore_state \<times> py_error option" where
  "restore_entries [] dst st = (st, None)"
| "restore_entries (op # rest) dst st =
     (case restore_entry op dst st of
        (dst', st', Some err) \<Rightarrow> (st', Some err)
      | (dst', st', None) \<Rightarrow> restore_entries rest dst' st')"

text \<open>
  \<open>restore_files(log_path)\<close>; an empty \<open>log_path\<close> stands for no argument. The prompt
  before the loop does nothing but wait and is left out. An exception that leaves the
  loop is caught by the last \<open>except\<close> clause: the log is not removed then.
\<close>

definition chosen_log_path :: "env \<Rightarrow> path \<Rightarrow> path" where
  "chosen_log_path e log_path_arg =
     (if log_path_arg = [] then default_log_path e else log_path_arg)"

definition restore_files :: "env \<Rightarrow> filesystem \<Rightarrow> path \<Rightarrow> restore_result" where
  "restore_files e fs log_path_arg =
     (let log_path = chosen_log_path e log_path_arg
      in if \<not> os_path_exists fs log_path then
           \<lparr>restored_fs = fs, restore_lines = [], ended = LogNotFound\<rparr>
         else
           case load_json fs log_path of
             Inl err \<Rightarrow>
               \<lparr>restored_fs = fs, restore_lines = [],
                ended = (if err = JSONDecodeError then LogFormatError else RestoreError err)\<rparr>
           | Inr (JObj log) \<Rightarrow>
               let records = (case map_of log ''operations'' of
                                Some v \<Rightarrow> v | None \<Rightarrow> JArr [])
               in if \<not> truthy records then
                    \<lparr>restored_fs = fs, restore_lines = [], ended = NoRecords\<rparr>
                  else
                    (case reversed records of
                       Inl err \<Rightarrow>
                         \<lparr>restored_fs = fs, restore_lines = [], ended = RestoreError err\<rparr>
                     | Inr entries \<Rightarrow>
                         (case restore_entries entries None
                                 \<lparr>rfs_now = fs, success_count = 0, printed = []\<rparr> of
                            (st, Some err) \<Rightarrow>
                              \<lparr>restored_fs = rfs_now st, restore_lines = printed st,
                               ended = RestoreError err\<rparr>
                          | (st, None) \<Rightarrow>
                              (case os_remove (rfs_now st) log_path of
                                 Inl err \<Rightarrow>
                                   \<lparr>restored_fs = rfs_now st, restore_lines = printed st,
                                    ended = RestoreError err\<rparr>
                               | Inr fs' \<Rightarrow>
                                   \<lparr>restored_fs = fs', restore_lines = printed st,
                                    ended = Completed (success_count st) (length entries)\<rparr>)))
           | Inr v \<Rightarrow>
               \<lparr>restored_fs = fs, restore_lines = [], ended = RestoreError AttributeError\<rparr>)"

section \<open>Notions used by the properties\<close>

text \<open>
  A plain name names an entry of a directory: it is not empty, has no slash, and is
  neither \<open>.\<close> nor \<open>..\<close>, which name the directory itself and the one above it. The names
  \<open>os.listdir\<close> returns are plain, and so is the name of a folder that lies in the
  desktop. A rooted directory path does not end in a slash. A path is deep below \<open>d\<close>
  when it lies inside a folder of \<open>d\<close>.
\<close>

definition plain :: "string \<Rightarrow> bool" where
  "plain x = (x \<noteq> [] \<and> CHR ''/'' \<notin> set x \<and> x \<noteq> ''.'' \<and> x \<noteq> ''..'')"

definition rooted :: "path \<Rightarrow> bool" where
  "rooted d = (d \<noteq> [] \<and> last d \<noteq> CHR ''/'')"

definition deep :: "path \<Rightarrow> path \<Rightarrow> bool" where
  "deep d p = (\<exists>c r. plain c \<and> p = d @ ''/'' @ c @ ''/'' @ r)"

text \<open>
  The skip filter in the words of the specification: the second test lower-cases the
  pattern before it looks for it in the lower-cased name.
\<close>

definition spec_should_skip :: "(string \<Rightarrow> string) \<Rightarrow> string \<Rightarrow> string list \<Rightarrow> bool" where
  "spec_should_skip lower filename skip_patterns =
     list_ex (\<lambda>pattern. (startswith pattern ''.'' \<and> endswith (lower filename) pattern)
                        \<or> str_in (lower pattern) (lower filename)) skip_patterns"

text \<open>A small world for the examples: a home directory, a clock, an open file system.\<close>

definition env_w :: env where
  "env_w = \<lparr>home = ''/h'', str_lower = ascii_lower, all_items = [], now_iso = ''2024-05-01T12:00:00'',
            now_hms = (\<lambda>f. ''120000'')\<rparr>"

definition fs_garbled :: filesystem where
  "fs_garbled =
     \<lparr>nodes = [''/h/Desktop'' \<mapsto> Dir, default_log_path env_w \<mapsto> File (Bytes ''not json'')],
      denied = (\<lambda>p. False)\<rparr>"

text \<open>
  A log that is a JSON object, with an element that is not a record before a record whose
  file is where the record says.
\<close>

fun is_object :: "json \<Rightarrow> bool" where
  "is_object (JObj kvs) = True"
| "is_object v = False"

definition fs_half_log :: filesystem where
  "fs_half_log =
     \<lparr>nodes = [''/h/Desktop'' \<mapsto> Dir,
               ''/h/Desktop/'' @ cat_pictures \<mapsto> Dir,
               ''/h/Desktop/'' @ cat_pictures @ ''/a.jpg'' \<mapsto> File (Bytes ''photo''),
               default_log_path env_w \<mapsto>
                 File (Json (JObj [(''operations'',
                                    JArr [JObj [(''x'', JNum 1)],
                                          JObj [(''original'', JStr ''/h/Desktop/a.jpg''),
                                                (''new_location'',
                                                 JStr (''/h/Desktop/'' @ cat_pictures @ ''/a.jpg''))]])]))],
      denied = (\<lambda>p. False)\<rparr>"

text \<open>
  The extension in the words of the specification: the final dot-delimited suffix with
  its dot, lower-cased; empty when the name has no dot.
\<close>

definition spec_extension :: "(string \<Rightarrow> string) \<Rightarrow> string \<Rightarrow> string" where
  "spec_extension lower filename =
     lower (case rfind (CHR ''.'') filename of None \<Rightarrow> [] | Some i \<Rightarrow> drop i filename)"

definition fs_pictures :: filesystem where
  "fs_pictures =
     \<lparr>nodes = [''/h/Desktop'' \<mapsto> Dir,
               ''/h/Desktop/Holiday.JPG'' \<mapsto> File (Bytes ''photo''),
               ''/h/Desktop/.py'' \<mapsto> File (Bytes ''script'')],
      denied = (\<lambda>p. False)\<rparr>"

text \<open>
  A desktop with one picture to organize, while the pictures folder already holds a file
  of the same name; in the second world it also holds one under the name the clock will
  give.
\<close>

definition env_a :: env where
  "env_a = env_w\<lparr>all_items := [''a.jpg'']\<rparr>"

definition fs_collision :: filesystem where
  "fs_collision =
     \<lparr>nodes = [''/h/Desktop'' \<mapsto> Dir,
               ''/h/Desktop/a.jpg'' \<mapsto> File (Bytes ''new''),
               ''/h/Desktop/'' @ cat_pictures \<mapsto> Dir,
               ''/h/Desktop/'' @ cat_pictures @ ''/a.jpg'' \<mapsto> File (Bytes ''old'')],
      denied = (\<lambda>p. False)\<rparr>"

definition fs_collision_twice :: filesystem where
  "fs_collision_twice =
     fs_collision\<lparr>nodes := (nodes fs_collision)
       (''/h/Desktop/'' @ cat_pictures @ ''/a_120000.jpg'' \<mapsto> File (Bytes ''older''))\<rparr>"

text \<open>The same for a file without a category: the fallback folder holds its name already.\<close>

definition env_c :: env where
  "env_c = env_w\<lparr>all_items := [''c.xyz'']\<rparr>"

definition fs_fallback :: filesystem where
  "fs_fallback =
     \<lparr>nodes = [''/h/Desktop'' \<mapsto> Dir,
               ''/h/Desktop/c.xyz'' \<mapsto> File (Bytes ''new''),
               ''/h/Desktop/'' @ others_name \<mapsto> Dir,
               ''/h/Desktop/'' @ others_name @ ''/c.xyz'' \<mapsto> File (Bytes ''old'')],
      denied = (\<lambda>p. False)\<rparr>"

text \<open>The lines that report a failure, and the file a line is about.\<close>

fun is_failure :: "report \<Rightarrow> bool" where
  "is_failure (Moved f c) = False"
| "is_failure (Unclassified f) = False"
| "is_failure (NoPermission f) = True"
| "is_failure (NotFound f) = True"
| "is_failure (Failed f err) = True"

fun report_file :: "report \<Rightarrow> string" where
  "report_file (Moved f c) = f"
| "report_file (Unclassified f) = f"
| "report_file (NoPermission f) = f"
| "report_file (NotFound f) = f"
| "report_file (Failed f err) = f"

text \<open>
  A desktop of three files where the operating system refuses to move the first, and the
  fallback folder's name is taken by a regular file.
\<close>

definition env_batch :: env where
  "env_batch = env_w\<lparr>all_items := [''a.jpg'', ''b.txt'', ''c.xyz'']\<rparr>"

definition fs_batch :: filesystem where
  "fs_batch =
     \<lparr>nodes = [''/h/Desktop'' \<mapsto> Dir,
               ''/h/Desktop/a.jpg'' \<mapsto> File (Bytes ''A''),
               ''/h/Desktop/b.txt'' \<mapsto> File (Bytes ''B''),
               ''/h/Desktop/c.xyz'' \<mapsto> File (Bytes ''C''),
               ''/h/Desktop/'' @ others_name \<mapsto> File (Bytes ''in the way'')],
      denied = (\<lambda>p. p = ''/h/Desktop/a.jpg'')\<rparr>"

fun is_restored :: "restore_line \<Rightarrow> bool" where
  "is_restored (Restored n) = True"
| "is_restored (Missing n) = False"
| "is_restored (RestoreFailed n err) = False"

text \<open>
  A log with one record whose file was deleted from its new location, and a log with no
  records.
\<close>

definition lost_record :: move_record where
  "lost_record = \<lparr>original = ''/h/Desktop/a.jpg'',
                   new_location = ''/h/Desktop/'' @ cat_pictures @ ''/a.jpg''\<rparr>"

definition fs_lost :: filesystem where
  "fs_lost =
     \<lparr>nodes = [''/h/Desktop'' \<mapsto> Dir,
               ''/h/Desktop/'' @ cat_pictures \<mapsto> Dir,
               default_log_path env_w \<mapsto>
                 File (Json (log_json \<lparr>timestamp = ''2024-05-01T12:00:00'',
                                            operations = [lost_record],
                                            desktop_path = ''/h/Desktop''\<rparr>))],
      denied = (\<lambda>p. False)\<rparr>"

definition fs_empty_log :: filesystem where
  "fs_empty_log =
     \<lparr>nodes = [''/h/Desktop'' \<mapsto> Dir,
               default_log_path env_w \<mapsto>
                 File (Json (log_json \<lparr>timestamp = ''2024-05-01T12:00:00'', operations = [],
                                            desktop_path = ''/h/Desktop''\<rparr>))],
      denied = (\<lambda>p. False)\<rparr>"

text \<open>The default configuration as a fresh module shows it.\<close>

definition default_view :: dict where
  "default_view = view initial_state (DEFAULT_CONFIG initial_state)"

text \<open>A value of an outer dict that is not a dict itself.\<close>

definition not_a_dict :: "pyval option \<Rightarrow> bool" where
  "not_a_dict x = (case x of Some (DictRef a) \<Rightarrow> False | Some (Plain (JObj d)) \<Rightarrow> False | _ \<Rightarrow> True)"

text \<open>What a returned configuration shows.\<close>

definition shown :: "load_result \<Rightarrow> dict" where
  "shown r = view (state_after r) (config r)"

text \<open>An override that replaces the skip patterns, adds a category and adds a new key.\<close>

definition override_ok :: dict where
  "override_ok =
     [(''skip_files'', strs [''.bak'']),
      (''categories'', JObj [(''x'', strs [''.x''])]),
      (''extra'', JNum 1)]"

text \<open>
  A desktop with a picture and a lock file of an office program, which the default skip
  patterns match.
\<close>

definition env_skip :: env where
  "env_skip = env_w\<lparr>all_items := [''a.jpg'', ''~$a.docx'']\<rparr>"

definition fs_skip :: filesystem where
  "fs_skip =
     \<lparr>nodes = [''/h/Desktop'' \<mapsto> Dir,
               ''/h/Desktop/a.jpg'' \<mapsto> File (Bytes ''A''),
               ''/h/Desktop/~$a.docx'' \<mapsto> File (Bytes ''lock'')],
      denied = (\<lambda>p. False)\<rparr>"

text \<open>
  Records that can be undone in a file system: every new location holds a regular file
  that may be moved, every original path is free, lies directly in the directory \<open>d\<close>,
  which exists, and no path occurs twice.
\<close>

definition undoable :: "path \<Rightarrow> filesystem \<Rightarrow> move_record list \<Rightarrow> bool" where
  "undoable d fs rs \<longleftrightarrow>
     d \<noteq> [] \<and> nodes fs d = Some Dir \<and>
     distinct (map new_location rs) \<and> distinct (map original rs) \<and>
     (\<forall>op \<in> set rs. \<forall>op' \<in> set rs. new_location op \<noteq> original op') \<and>
     (\<forall>op \<in> set rs.
        os_path_isfile fs (new_location op) \<and> nodes fs (original op) = None \<and>
        dirname (original op) = d \<and>
        \<not> denied fs (new_location op) \<and> \<not> denied fs (original op))"

text \<open>
  A configuration with a category whose name is empty, and a skip pattern that matches
  the name the clock gives to a renamed file. The desktop holds a picture and a file of
  that name.
\<close>

definition cfg_nameless :: config where
  "cfg_nameless = \<lparr>skip_files = [''_1''], backup_log = True, categories = [([], [''.jpg''])]\<rparr>"

definition env_nameless :: env where
  "env_nameless = env_w\<lparr>all_items := [''a.jpg'', ''a_120000.jpg'']\<rparr>"

definition fs_nameless :: filesystem where
  "fs_nameless =
     \<lparr>nodes = [''/h/Desktop'' \<mapsto> Dir,
               ''/h/Desktop/a.jpg'' \<mapsto> File (Bytes ''new''),
               ''/h/Desktop/a_120000.jpg'' \<mapsto> File (Bytes ''kept'')],
      denied = (\<lambda>p. False)\<rparr>"

text \<open>
  What is known in the middle of a run that logs its moves, started on the file system
  \<open>fs1\<close>, with the files of \<open>todo\<close> still to come: the permissions and the desktop
  directory are as they were; an entry of the desktop that no record has left is as it
  was; no directory has appeared inside a folder; and every record tells of a regular
  file of the desktop, not one still to come, that is now at the recorded new location,
  inside a folder, its old place empty.
\<close>

definition run_inv :: "env \<Rightarrow> filesystem \<Rightarrow> string list \<Rightarrow> run_state \<Rightarrow> bool" where
  "run_inv e fs1 todo st \<longleftrightarrow>
     denied (fs_now st) = denied fs1 \<and>
     nodes (fs_now st) (desktop_dir e) = nodes fs1 (desktop_dir e) \<and>
     (\<forall>g. CHR ''/'' \<notin> set g \<and> desktop_dir e @ CHR ''/'' # g \<notin> original ` set (ops st) \<and>
          nodes fs1 (desktop_dir e @ CHR ''/'' # g) \<noteq> None \<longrightarrow>
          nodes (fs_now st) (desktop_dir e @ CHR ''/'' # g) = nodes fs1 (desktop_dir e @ CHR ''/'' # g)) \<and>
     (\<forall>p. deep (desktop_dir e) p \<and> os_path_isdir (fs_now st) p \<longrightarrow> os_path_isdir fs1 p) \<and>
     distinct (map original (ops st)) \<and>
     (\<forall>op \<in> set (ops st).
        (\<exists>g. plain g \<and> g \<notin> set todo \<and> original op = desktop_dir e @ CHR ''/'' # g) \<and>
        os_path_isfile fs1 (original op) \<and>
        nodes (fs_now st) (new_location op) = nodes fs1 (original op) \<and>
        nodes (fs_now st) (original op) = None \<and>
        deep (desktop_dir e) (new_location op))"

text \<open>
  The records of a run that \<open>restore_files\<close> can undo: no new location occurs twice, none
  was a directory when the run began, and no original path is that of the fallback folder
  or of the log.
\<close>

definition clean_records :: "env \<Rightarrow> filesystem \<Rightarrow> move_record list \<Rightarrow> bool" where
  "clean_records e fs rs \<longleftrightarrow>
     distinct (map new_location rs) \<and>
     (\<forall>op \<in> set rs.
        \<not> os_path_isdir fs (new_location op) \<and>
        original op \<noteq> os_path_join (desktop_dir e) others_name \<and>
        original op \<noteq> default_log_path e)"

section \<open>Properties of the strings and paths\<close>

lemma startswith_prefix: "startswith s p \<longleftrightarrow> prefix p s"
  unfolding startswith_def prefix_def
  by (metis append_eq_conv_conj append_take_drop_id)

lemma endswith_suffix: "endswith s p \<longleftrightarrow> suffix p s"
  unfolding endswith_def
  by (metis append_take_drop_id same_append_eq suffix_drop suffix_length_le suffix_take)

lemma str_in_sublist: "str_in p s \<longleftrightarrow> sublist p s"
  by (induction s) (auto simp: startswith_prefix sublist_Cons_right)

lemma startswith_slash: "startswith x ''/'' \<longleftrightarrow> (x \<noteq> [] \<and> hd x = CHR ''/'')"
  by (cases x) (auto simp: startswith_def)

lemma endswith_slash: "endswith a ''/'' \<longleftrightarrow> (a \<noteq> [] \<and> last a = CHR ''/'')"
  by (cases a rule: rev_cases) (auto simp: endswith_def)

lemma rooted_desktop: "rooted (desktop_dir e)"
  by (auto simp: rooted_def desktop_dir_def os_path_join_def startswith_def)

lemma join_rooted: "rooted d \<Longrightarrow> x \<noteq> [] \<Longrightarrow> hd x \<noteq> CHR ''/'' \<Longrightarrow> os_path_join d x = d @ CHR ''/'' # x"
  by (simp add: os_path_join_def startswith_slash endswith_slash rooted_def)

lemma plain_hd: "plain x \<Longrightarrow> x \<noteq> [] \<and> hd x \<noteq> CHR ''/''"
  by (cases x) (auto simp: plain_def)

lemma join_plain: "rooted d \<Longrightarrow> plain x \<Longrightarrow> os_path_join d x = d @ CHR ''/'' # x"
  by (simp add: join_rooted plain_hd)

lemma rooted_join: "rooted d \<Longrightarrow> plain x \<Longrightarrow> rooted (d @ CHR ''/'' # x)"
  by (cases x rule: rev_cases) (auto simp: rooted_def plain_def)

lemma rfind_last_slash: "CHR ''/'' \<notin> set g \<Longrightarrow> rfind (CHR ''/'') (d @ CHR ''/'' # g) = Some (length d)"
proof -
  assume a: "CHR ''/'' \<notin> set g"
  have "takeWhile (\<lambda>x. x \<noteq> CHR ''/'') (rev g @ CHR ''/'' # rev d) = rev g"
    using a by (auto simp: takeWhile_tail)
  then show ?thesis by (simp add: rfind_def)
qed

lemma basename_join: "CHR ''/'' \<notin> set g \<Longrightarrow> basename (d @ CHR ''/'' # g) = g"
  by (simp add: basename_def rfind_last_slash)

lemma rstrip_rooted: "rooted d \<Longrightarrow> rstrip (CHR ''/'') d = d"
  by (cases d rule: rev_cases) (auto simp: rstrip_def rooted_def)

lemma dirname_join: "rooted d \<Longrightarrow> CHR ''/'' \<notin> set g \<Longrightarrow> dirname (d @ CHR ''/'' # g) = d"
proof -
  assume r: "rooted d" and g: "CHR ''/'' \<notin> set g"
  have ne: "d @ ''/'' \<noteq> replicate (Suc (length d)) (CHR ''/'')"
  proof
    assume "d @ ''/'' = replicate (Suc (length d)) (CHR ''/'')"
    then have "set d \<subseteq> {CHR ''/''}"
      by (metis Un_iff set_append set_replicate_conv_if subsetI insert_iff empty_iff)
    with r show False
      by (metis rooted_def last_in_set singletonD subsetD)
  qed
  have "rstrip (CHR ''/'') (d @ ''/'') = d"
    using rstrip_rooted [OF r] by (simp add: rstrip_def)
  with ne show ?thesis
    by (simp add: dirname_def rfind_last_slash g)
qed

lemma splitext_append: "splitext p = (b, x) \<Longrightarrow> b @ x = p"
  by (auto simp: splitext_def Let_def split: option.splits if_splits)

lemma plain_others: "plain others_name"
  by (simp add: plain_def others_name_def)

lemma plain_log_name: "plain log_name"
  by (simp add: plain_def log_name_def)

lemma not_deep_plain: "CHR ''/'' \<notin> set g \<Longrightarrow> \<not> deep d (d @ CHR ''/'' # g)"
  by (auto simp: deep_def)

lemma not_deep_self: "\<not> deep d d"
  by (auto simp: deep_def)

section \<open>The skip filter\<close>

lemma skip_loop_iff:
  "skip_loop n ps \<longleftrightarrow> (\<exists>p \<in> set ps. (startswith p ''.'' \<and> suffix p n) \<or> sublist p n)"
  by (induction ps) (auto simp: endswith_suffix str_in_sublist)

text \<open>
  C3, as the code has it, for every lower-casing function. \<open>should_skip_file\<close> is a
  function of the name and the patterns and nothing else (it has no effect). It answers
  true exactly when some pattern matches the lower-cased name:
  a pattern that begins with a dot matches when the lower-cased name ends with it, and any
  pattern matches when it occurs in the lower-cased name. The pattern is taken as it is
  given: the code does not lower-case it. (A suffix is an occurrence, so the answer is
  that some pattern occurs in the lower-cased name.)
\<close>

theorem should_skip_file_iff:
  "(should_skip_file lower filename skip_patterns \<longleftrightarrow>
      (\<exists>pattern \<in> set skip_patterns.
         (startswith pattern ''.'' \<and> suffix pattern (lower filename))
         \<or> sublist pattern (lower filename))) \<and>
   (should_skip_file lower filename skip_patterns \<longleftrightarrow>
      (\<exists>pattern \<in> set skip_patterns. sublist pattern (lower filename)))"
  by (auto simp: should_skip_file_def skip_loop_iff)

theorem should_skip_file_iff_witness:
  "should_skip_file ascii_lower ''~$Report.DOCX'' default_skip_files \<and>
   should_skip_file ascii_lower ''Thumbs.DB'' default_skip_files \<and>
   \<not> should_skip_file ascii_lower ''notes.txt'' default_skip_files"
  using should_skip_file_iff [of ascii_lower "''~$Report.DOCX''" default_skip_files]
  by (simp add: should_skip_file_def default_skip_files_def ascii_lower_def lower_char_def
        startswith_def endswith_def)

text \<open>
  The claim C3 as the specification words it fails: the pattern \<open>.TMP\<close>, lower-cased,
  occurs in \<open>a.tmp\<close>, and the code does not skip the file.
\<close>

theorem should_skip_file_counterexample:
  "spec_should_skip ascii_lower ''a.tmp'' [''.TMP''] \<and>
   \<not> should_skip_file ascii_lower ''a.tmp'' [''.TMP'']"
  by (simp add: should_skip_file_def spec_should_skip_def ascii_lower_def lower_char_def
        startswith_def endswith_def)

section \<open>Restoring without a usable log\<close>

text \<open>
  C7, as the code has it. When nothing exists at the log path, or the file there is not
  a JSON document (it is not JSON, or not even UTF-8), or it is a JSON document but not an
  object, \<open>restore_files\<close> reports it and returns with the file system exactly as it was:
  no file is moved and the log, when there is one, is still there.
\<close>

theorem restore_without_usable_log:
  "(\<not> os_path_exists fs (chosen_log_path e log_path_arg) \<longrightarrow>
      restore_files e fs log_path_arg = \<lparr>restored_fs = fs, restore_lines = [], ended = LogNotFound\<rparr>) \<and>
   (nodes fs (chosen_log_path e log_path_arg) = Some (File (Bytes b)) \<longrightarrow>
      restore_files e fs log_path_arg = \<lparr>restored_fs = fs, restore_lines = [], ended = LogFormatError\<rparr>) \<and>
   (nodes fs (chosen_log_path e log_path_arg) = Some (File Undecodable) \<longrightarrow>
      restore_files e fs log_path_arg =
        \<lparr>restored_fs = fs, restore_lines = [], ended = RestoreError UnicodeDecodeError\<rparr>) \<and>
   (nodes fs (chosen_log_path e log_path_arg) = Some (File (Json j)) \<and> \<not> is_object j \<longrightarrow>
      restore_files e fs log_path_arg =
        \<lparr>restored_fs = fs, restore_lines = [], ended = RestoreError AttributeError\<rparr>)"
  by (cases j) (simp_all add: restore_files_def os_path_exists_def load_json_def)

theorem restore_without_usable_log_witness:
  "restore_files env_w fs_garbled [] =
     \<lparr>restored_fs = fs_garbled, restore_lines = [], ended = LogFormatError\<rparr> \<and>
   nodes fs_garbled (default_log_path env_w) = Some (File (Bytes ''not json'')) \<and>
   restore_files env_w (fs_garbled\<lparr>nodes := Map.empty\<rparr>) [] =
     \<lparr>restored_fs = fs_garbled\<lparr>nodes := Map.empty\<rparr>, restore_lines = [], ended = LogNotFound\<rparr> \<and>
   restore_files env_w
       (fs_garbled\<lparr>nodes := [default_log_path env_w \<mapsto> File (Json (JArr []))]\<rparr>) [] =
     \<lparr>restored_fs = fs_garbled\<lparr>nodes := [default_log_path env_w \<mapsto> File (Json (JArr []))]\<rparr>,
      restore_lines = [], ended = RestoreError AttributeError\<rparr>"
  using restore_without_usable_log [of fs_garbled env_w "[]" "''not json''" JNull]
        restore_without_usable_log [of "fs_garbled\<lparr>nodes := Map.empty\<rparr>" env_w "[]" "''not json''" JNull]
        restore_without_usable_log
          [of "fs_garbled\<lparr>nodes := [default_log_path env_w \<mapsto> File (Json (JArr []))]\<rparr>"
              env_w "[]" "''not json''" "JArr []"]
  by (simp add: fs_garbled_def chosen_log_path_def os_path_exists_def)

text \<open>
  The claim C7 as the specification words it fails for a log that is a JSON object whose
  operations are not all records: here the first is an object without the two keys, the
  second a record whose file is at its new location. Nothing reports the log as
  malformed: the record is restored, the other element gives a failure line, and the log
  is deleted.
\<close>

theorem restore_without_usable_log_counterexample:
  "load_json fs_half_log (chosen_log_path env_w []) =
     Inr (JObj [(''operations'', JArr [JObj [(''x'', JNum 1)], record_json lost_record])]) \<and>
   record_of (JObj [(''x'', JNum 1)]) = Inl KeyError \<and>
   restore_lines (restore_files env_w fs_half_log []) =
     [Restored ''a.jpg'', RestoreFailed ''a.jpg'' KeyError] \<and>
   ended (restore_files env_w fs_half_log []) = Completed 1 2 \<and>
   nodes fs_half_log (''/h/Desktop/'' @ cat_pictures @ ''/a.jpg'') = Some (File (Bytes ''photo'')) \<and>
   nodes (restored_fs (restore_files env_w fs_half_log [])) (''/h/Desktop/'' @ cat_pictures @ ''/a.jpg'') = None \<and>
   nodes (restored_fs (restore_files env_w fs_half_log [])) ''/h/Desktop/a.jpg'' =
     Some (File (Bytes ''photo'')) \<and>
   os_path_isfile fs_half_log (chosen_log_path env_w []) \<and>
   nodes (restored_fs (restore_files env_w fs_half_log [])) (chosen_log_path env_w []) = None"
  by code_simp

section \<open>Loading the configuration\<close>

text \<open>
  C10. An override that gives \<open>categories\<close> a mapping is merged into the dict object
  that \<open>DEFAULT_CONFIG\<close> holds: the call returns the merged categories, the module's
  default has changed, and a later call without an override returns the merged categories
  too, not what the first such call of a fresh module returns.
\<close>

theorem default_config_is_mutated:
  "let r0 = load_config initial_state NoFile;
       r1 = load_config initial_state (Document [(''categories'', JObj [(''x'', strs [''.x''])])]);
       r2 = load_config (state_after r1) NoFile
   in warning r1 = None \<and>
      map_of (view (state_after r0) (config r0)) ''categories''
        = Some (JObj (map (\<lambda>(c, exts). (c, strs exts)) default_categories)) \<and>
      map_of (view (state_after r2) (config r2)) ''categories''
        = Some (JObj (map (\<lambda>(c, exts). (c, strs exts)) default_categories @ [(''x'', strs [''.x''])])) \<and>
      view (state_after r2) (config r2) = view (state_after r1) (config r1) \<and>
      view (state_after r2) (config r2) \<noteq> view (state_after r0) (config r0) \<and>
      view (state_after r1) (DEFAULT_CONFIG (state_after r1))
        \<noteq> view initial_state (DEFAULT_CONFIG initial_state)"
  by (simp add: load_config_def merge_key_def initial_state_def view_def deref_def Let_def
        default_categories_def cat_pictures_def cat_documents_def cat_archives_def cat_code_def
        cat_executables_def cat_shortcuts_def cat_media_def)

section \<open>The primitives of the file system\<close>

lemma os_makedirs_cases:
  "os_makedirs fs p = Inr fs' \<Longrightarrow>
     (fs' = fs \<and> nodes fs p = Some Dir) \<or>
     (nodes fs p = None \<and> fs' = fs\<lparr>nodes := (nodes fs)(p \<mapsto> Dir)\<rparr>)"
  by (auto simp: os_makedirs_def split: if_splits option.splits node.splits)

lemma shutil_move_file:
  assumes "nodes fs src = Some (File x)" and "src \<noteq> dst"
    and "shutil_move fs src dst = (fs', None)"
  shows "\<exists>rd. (if os_path_isdir fs dst
               then rd = os_path_join dst (basename (rstrip (CHR ''/'') src)) \<and> nodes fs rd = None
               else rd = dst) \<and>
              \<not> denied fs src \<and> \<not> denied fs rd \<and>
              fs' = fs\<lparr>nodes := ((nodes fs)(src := None))(rd \<mapsto> File x)\<rparr>"
  using assms
  by (auto simp: shutil_move_def move_entry_def os_path_isdir_def os_path_exists_def Let_def
           split: if_splits)

lemma shutil_move_file_raises:
  assumes "nodes fs src = Some (File x)" and "shutil_move fs src dst = (fs', Some err)"
  shows "fs' = fs \<or>
         denied fs src \<and>
         fs' = fs\<lparr>nodes := (nodes fs)
                 ((if os_path_isdir fs dst
                   then os_path_join dst (basename (rstrip (CHR ''/'') src)) else dst)
                  \<mapsto> File x)\<rparr>"
  using assms
  by (auto simp: shutil_move_def move_entry_def os_path_isdir_def os_path_exists_def Let_def
           split: if_splits)

lemma first_category_mem:
  "first_category x cats = Some c \<Longrightarrow> c \<in> fst ` set cats"
  by (induction x cats rule: first_category.induct) (auto split: if_splits)

lemma new_name_hd:
  assumes "plain g"
  shows "new_name e g \<noteq> []" and "hd (new_name e g) \<noteq> CHR ''/''"
proof -
  obtain b x where bx: "splitext g = (b, x)" by (cases "splitext g")
  have "b @ x = g" using bx by (rule splitext_append)
  then show "new_name e g \<noteq> []" and "hd (new_name e g) \<noteq> CHR ''/''"
    using assms bx by (cases b; auto simp: plain_def new_name_def)+
qed

lemma resolve_form:
  assumes "plain g" "rooted df"
  shows "\<exists>n. n \<noteq> [] \<and> hd n \<noteq> CHR ''/'' \<and> resolve e fs df g = df @ CHR ''/'' # n \<and>
             (\<not> os_path_exists fs (df @ CHR ''/'' # g) \<longrightarrow> n = g) \<and>
             (os_path_exists fs (df @ CHR ''/'' # g) \<longrightarrow> n = new_name e g)"
proof (cases "os_path_exists fs (df @ CHR ''/'' # g)")
  case False
  have "resolve e fs df g = df @ CHR ''/'' # g"
    using False assms by (simp add: resolve_def join_plain)
  then show ?thesis using False plain_hd [OF assms(1)] by simp
next
  case True
  have j: "os_path_join df (new_name e g) = df @ CHR ''/'' # new_name e g"
    by (rule join_rooted [OF assms(2) new_name_hd [OF assms(1)]])
  have r: "resolve e fs df g = os_path_join df (new_name e g)"
    using True assms by (simp add: resolve_def join_plain)
  show ?thesis using new_name_hd [OF assms(1), of e] r j True by metis
qed

lemma deep_intro: "plain c \<Longrightarrow> deep d (d @ CHR ''/'' # c @ CHR ''/'' # r)"
  by (auto simp: deep_def)

lemma join_deep:
  assumes "plain c" "plain g"
  shows "deep d (os_path_join (d @ CHR ''/'' # c @ CHR ''/'' # n) g)"
proof -
  have "os_path_join (d @ CHR ''/'' # c @ CHR ''/'' # n) g = d @ CHR ''/'' # c @ CHR ''/'' # (n @ g)
      \<or> os_path_join (d @ CHR ''/'' # c @ CHR ''/'' # n) g = d @ CHR ''/'' # c @ CHR ''/'' # (n @ CHR ''/'' # g)"
    using assms(2) by (auto simp: os_path_join_def startswith_slash plain_hd)
  then show ?thesis using deep_intro [OF assms(1)] by metis
qed

section \<open>Classification\<close>

lemma first_category_Some:
  "first_category x cats = Some category \<longleftrightarrow>
     (\<exists>before extensions rest. cats = before @ (category, extensions) # rest \<and>
        x \<in> set extensions \<and> (\<forall>(c, exts) \<in> set before. x \<notin> set exts))"
proof (induction x cats rule: first_category.induct)
  case (1 x)
  then show ?case by simp
next
  case (2 x c exts rest)
  show ?case
  proof (cases "x \<in> set exts")
    case True
    have "(\<exists>before extensions rest'. (c, exts) # rest = before @ (category, extensions) # rest' \<and>
        x \<in> set extensions \<and> (\<forall>(c, exts) \<in> set before. x \<notin> set exts)) \<longleftrightarrow> c = category"
    proof
      assume "\<exists>before extensions rest'. (c, exts) # rest = before @ (category, extensions) # rest' \<and>
        x \<in> set extensions \<and> (\<forall>(c, exts) \<in> set before. x \<notin> set exts)"
      then obtain before extensions rest' where
        h: "(c, exts) # rest = before @ (category, extensions) # rest'"
           "\<forall>(c, exts) \<in> set before. x \<notin> set exts" by blast
      show "c = category"
      proof (cases before)
        case Nil
        with h show ?thesis by simp
      next
        case (Cons b bs)
        with h True show ?thesis by auto
      qed
    next
      assume "c = category"
      with True show "\<exists>before extensions rest'. (c, exts) # rest = before @ (category, extensions) # rest' \<and>
        x \<in> set extensions \<and> (\<forall>(c, exts) \<in> set before. x \<notin> set exts)"
        by (intro exI [of _ "[]"] exI [of _ exts] exI [of _ rest]) simp
    qed
    with True show ?thesis by auto
  next
    case False
    have "(\<exists>before extensions rest'. (c, exts) # rest = before @ (category, extensions) # rest' \<and>
        x \<in> set extensions \<and> (\<forall>(c, exts) \<in> set before. x \<notin> set exts)) \<longleftrightarrow>
          (\<exists>before extensions rest'. rest = before @ (category, extensions) # rest' \<and>
        x \<in> set extensions \<and> (\<forall>(c, exts) \<in> set before. x \<notin> set exts))" (is "?L \<longleftrightarrow> ?R")
    proof
      assume ?L
      then obtain before extensions rest' where
        h: "(c, exts) # rest = before @ (category, extensions) # rest'" "x \<in> set extensions"
           "\<forall>(c, exts) \<in> set before. x \<notin> set exts" by blast
      show ?R
      proof (cases before)
        case Nil
        with h False show ?thesis by simp
      next
        case (Cons b bs)
        with h have "rest = bs @ (category, extensions) # rest'" "\<forall>(c, exts) \<in> set bs. x \<notin> set exts"
          by auto
        with h(2) show ?thesis by blast
      qed
    next
      assume ?R
      then obtain before extensions rest' where
        h: "rest = before @ (category, extensions) # rest'" "x \<in> set extensions"
           "\<forall>(c, exts) \<in> set before. x \<notin> set exts" by blast
      show ?L
        using h False
        by (intro exI [of _ "(c, exts) # before"] exI [of _ extensions] exI [of _ rest']) simp
    qed
    with False 2 show ?thesis by simp
  qed
qed

lemma first_category_None:
  "first_category x cats = None \<longleftrightarrow> (\<forall>(c, exts) \<in> set cats. x \<notin> set exts)"
  by (induction x cats rule: first_category.induct) auto

lemma splitext_name:
  "CHR ''/'' \<notin> set filename \<Longrightarrow>
   snd (splitext filename) =
     (case rfind (CHR ''.'') filename of
        None \<Rightarrow> []
      | Some i \<Rightarrow> if list_ex (\<lambda>c. c \<noteq> CHR ''.'') (take i filename) then drop i filename else [])"
  by (simp add: splitext_def rfind_def split: option.splits)

lemma process_file_folder:
  "process_file cfg e fs filename = (fs', Inr (line, rec)) \<Longrightarrow>
     (case first_category (str_lower e (snd (splitext filename))) (categories cfg) of
        Some category \<Rightarrow>
          line = Moved filename category \<and>
          new_location rec = resolve e fs (os_path_join (desktop_dir e) category) filename
      | None \<Rightarrow>
          line = Unclassified filename \<and>
          new_location rec = os_path_join (os_path_join (desktop_dir e) others_name) filename)"
  by (auto simp: process_file_def Let_def split: option.splits sum.splits prod.splits)

text \<open>
  C2, as the code has it. The extension of a name is what \<open>os.path.splitext\<close> gives:
  the part from the last dot on, when some character before that dot is not a dot, and
  the empty string otherwise (no dot, or only dots before the last one: \<open>.py\<close> has no
  extension). It is lower-cased and looked up in the categories in the order of the
  configuration; the file is assigned to the first category whose extensions contain it,
  and to the fallback folder when none does. Whenever the file is moved, the printed line
  and the recorded destination are those of that folder.
\<close>

theorem classification:
  assumes "CHR ''/'' \<notin> set filename"
  shows "snd (splitext filename) =
           (case rfind (CHR ''.'') filename of
              None \<Rightarrow> []
            | Some i \<Rightarrow> if list_ex (\<lambda>c. c \<noteq> CHR ''.'') (take i filename) then drop i filename
                        else []) \<and>
         (first_category (str_lower e (snd (splitext filename))) (categories cfg) = Some category \<longleftrightarrow>
            (\<exists>before extensions rest.
               categories cfg = before @ (category, extensions) # rest \<and>
               str_lower e (snd (splitext filename)) \<in> set extensions \<and>
               (\<forall>(c, exts) \<in> set before. str_lower e (snd (splitext filename)) \<notin> set exts))) \<and>
         (first_category (str_lower e (snd (splitext filename))) (categories cfg) = None \<longleftrightarrow>
            (\<forall>(c, exts) \<in> set (categories cfg). str_lower e (snd (splitext filename)) \<notin> set exts)) \<and>
         (\<forall>fs' line rec. process_file cfg e fs filename = (fs', Inr (line, rec)) \<longrightarrow>
            (case first_category (str_lower e (snd (splitext filename))) (categories cfg) of
               Some c \<Rightarrow>
                 line = Moved filename c \<and>
                 new_location rec = resolve e fs (os_path_join (desktop_dir e) c) filename
             | None \<Rightarrow>
                 line = Unclassified filename \<and>
                 new_location rec =
                   os_path_join (os_path_join (desktop_dir e) others_name) filename))"
proof (intro conjI allI impI)
  show "snd (splitext filename) =
           (case rfind (CHR ''.'') filename of
              None \<Rightarrow> []
            | Some i \<Rightarrow> if list_ex (\<lambda>c. c \<noteq> CHR ''.'') (take i filename) then drop i filename
                        else [])"
    using assms by (rule splitext_name)
  show "first_category (str_lower e (snd (splitext filename))) (categories cfg) = Some category \<longleftrightarrow>
            (\<exists>before extensions rest.
               categories cfg = before @ (category, extensions) # rest \<and>
               str_lower e (snd (splitext filename)) \<in> set extensions \<and>
               (\<forall>(c, exts) \<in> set before. str_lower e (snd (splitext filename)) \<notin> set exts))"
    by (rule first_category_Some)
  show "first_category (str_lower e (snd (splitext filename))) (categories cfg) = None \<longleftrightarrow>
            (\<forall>(c, exts) \<in> set (categories cfg). str_lower e (snd (splitext filename)) \<notin> set exts)"
    by (rule first_category_None)
next
  fix fs' line rec
  assume "process_file cfg e fs filename = (fs', Inr (line, rec))"
  then show "case first_category (str_lower e (snd (splitext filename))) (categories cfg) of
               Some c \<Rightarrow>
                 line = Moved filename c \<and>
                 new_location rec = resolve e fs (os_path_join (desktop_dir e) c) filename
             | None \<Rightarrow>
                 line = Unclassified filename \<and>
                 new_location rec =
                   os_path_join (os_path_join (desktop_dir e) others_name) filename"
    by (rule process_file_folder)
qed

theorem classification_witness:
  "CHR ''/'' \<notin> set ''Holiday.JPG'' \<and>
   snd (splitext ''Holiday.JPG'') = ''.JPG'' \<and>
   first_category ''.jpg'' (categories default_config) = Some cat_pictures \<and>
   process_file default_config env_w fs_pictures ''Holiday.JPG'' =
     (fs_pictures\<lparr>nodes := (nodes fs_pictures)
        (''/h/Desktop/Holiday.JPG'' := None,
         ''/h/Desktop/'' @ cat_pictures @ ''/Holiday.JPG'' \<mapsto> File (Bytes ''photo''))\<rparr>,
      Inr (Moved ''Holiday.JPG'' cat_pictures,
           \<lparr>original = ''/h/Desktop/Holiday.JPG'',
            new_location = ''/h/Desktop/'' @ cat_pictures @ ''/Holiday.JPG''\<rparr>))"
  using classification [where filename = "''Holiday.JPG''" and cfg = default_config
          and category = cat_pictures and e = env_w and fs = fs_pictures]
  by (simp add: rfind_def ascii_lower_def lower_char_def splitext_def Let_def
        default_config_def default_categories_def process_file_def env_w_def fs_pictures_def
        desktop_dir_def os_path_join_def startswith_def endswith_def cat_pictures_def
        resolve_def new_name_def shutil_move_def move_entry_def os_path_isdir_def os_path_exists_def)

text \<open>
  The claim C2 as the specification words it fails on a name that begins with its only
  dot. The final dot-delimited suffix of \<open>.py\<close> is \<open>.py\<close>, which the default
  configuration lists under code; the code finds no extension and moves the file to the
  fallback folder.
\<close>

theorem classification_counterexample:
  "spec_extension ascii_lower ''.py'' = ''.py'' \<and>
   first_category (spec_extension ascii_lower ''.py'') (categories default_config) = Some cat_code \<and>
   str_lower env_w (snd (splitext ''.py'')) = [] \<and>
   snd (process_file default_config env_w fs_pictures ''.py'') =
     Inr (Unclassified ''.py'',
          \<lparr>original = ''/h/Desktop/.py'', new_location = ''/h/Desktop/'' @ others_name @ ''/.py''\<rparr>)"
  by (simp add: spec_extension_def rfind_def ascii_lower_def lower_char_def splitext_def Let_def
        default_config_def default_categories_def process_file_def env_w_def fs_pictures_def
        desktop_dir_def os_path_join_def startswith_def endswith_def others_name_def
        os_makedirs_def shutil_move_def move_entry_def os_path_isdir_def os_path_exists_def)

section \<open>One file of the batch\<close>

lemma src_basename:
  assumes "rooted d" "plain g"
  shows "basename (rstrip (CHR ''/'') (d @ CHR ''/'' # g)) = g"
proof -
  have "rstrip (CHR ''/'') (d @ CHR ''/'' # g) = d @ CHR ''/'' # g"
    by (rule rstrip_rooted [OF rooted_join [OF assms]])
  then show ?thesis using assms(2) by (simp add: basename_join plain_def)
qed

text \<open>
  Moving a regular file from the desktop to a destination inside a folder: where it
  lands and what changes.
\<close>

lemma move_into_folder:
  assumes d: "rooted d" and g: "plain g" and c: "plain c"
    and src: "nodes fs (d @ CHR ''/'' # g) = Some (File x)"
    and mv: "shutil_move fs (d @ CHR ''/'' # g) (d @ CHR ''/'' # c @ CHR ''/'' # n) = (fs', None)"
  shows "\<exists>rd. deep d rd \<and>
           (\<not> os_path_isdir fs (d @ CHR ''/'' # c @ CHR ''/'' # n) \<longrightarrow>
              rd = d @ CHR ''/'' # c @ CHR ''/'' # n) \<and>
           \<not> denied fs (d @ CHR ''/'' # g) \<and> \<not> denied fs rd \<and>
           fs' = fs\<lparr>nodes := ((nodes fs)(d @ CHR ''/'' # g := None))(rd \<mapsto> File x)\<rparr>"
proof -
  have ne: "d @ CHR ''/'' # g \<noteq> d @ CHR ''/'' # c @ CHR ''/'' # n"
    using g by (auto simp: plain_def)
  from shutil_move_file [OF src ne mv] obtain rd where
    rd: "if os_path_isdir fs (d @ CHR ''/'' # c @ CHR ''/'' # n)
         then rd = os_path_join (d @ CHR ''/'' # c @ CHR ''/'' # n)
                     (basename (rstrip (CHR ''/'') (d @ CHR ''/'' # g))) \<and> nodes fs rd = None
         else rd = d @ CHR ''/'' # c @ CHR ''/'' # n"
    and rest: "\<not> denied fs (d @ CHR ''/'' # g)" "\<not> denied fs rd"
      "fs' = fs\<lparr>nodes := ((nodes fs)(d @ CHR ''/'' # g := None))(rd \<mapsto> File x)\<rparr>"
    by blast
  have "deep d rd"
  proof (cases "os_path_isdir fs (d @ CHR ''/'' # c @ CHR ''/'' # n)")
    case True
    with rd have "rd = os_path_join (d @ CHR ''/'' # c @ CHR ''/'' # n) g"
      by (simp add: src_basename [OF d g])
    then show ?thesis using join_deep [OF c g] by simp
  next
    case False
    with rd show ?thesis using deep_intro [OF c] by simp
  qed
  moreover have "\<not> os_path_isdir fs (d @ CHR ''/'' # c @ CHR ''/'' # n) \<longrightarrow>
              rd = d @ CHR ''/'' # c @ CHR ''/'' # n"
    using rd by simp
  ultimately show ?thesis using rest by blast
qed

text \<open>When such a move raises, it has changed nothing or left a copy inside a folder.\<close>

lemma move_into_folder_raises:
  assumes d: "rooted d" and g: "plain g" and c: "plain c"
    and src: "nodes fs (d @ CHR ''/'' # g) = Some (File x)"
    and mv: "shutil_move fs (d @ CHR ''/'' # g) (d @ CHR ''/'' # c @ CHR ''/'' # n) = (fs', Some err)"
  shows "fs' = fs \<or>
         (\<exists>rd. deep d rd \<and> denied fs (d @ CHR ''/'' # g) \<and>
               fs' = fs\<lparr>nodes := (nodes fs)(rd \<mapsto> File x)\<rparr>)"
proof -
  let ?dst = "d @ CHR ''/'' # c @ CHR ''/'' # n"
  let ?rd = "if os_path_isdir fs ?dst
             then os_path_join ?dst (basename (rstrip (CHR ''/'') (d @ CHR ''/'' # g))) else ?dst"
  have "deep d ?rd"
    using join_deep [OF c g, of d n] deep_intro [OF c, of d n]
    by (simp add: src_basename [OF d g])
  then show ?thesis
    using shutil_move_file_raises [OF src mv] by blast
qed

lemma process_file_categorized:
  assumes "plain g" "plain c"
    and "first_category (str_lower e (snd (splitext g))) (categories cfg) = Some c"
  shows "process_file cfg e fs g =
           (case shutil_move fs (desktop_dir e @ CHR ''/'' # g)
                   (resolve e fs (desktop_dir e @ CHR ''/'' # c) g) of
              (fs', Some err) \<Rightarrow> (fs', Inl err)
            | (fs', None) \<Rightarrow>
                (fs', Inr (Moved g c,
                           \<lparr>original = desktop_dir e @ CHR ''/'' # g,
                            new_location = resolve e fs (desktop_dir e @ CHR ''/'' # c) g\<rparr>)))"
  using assms by (simp add: process_file_def Let_def join_plain rooted_desktop)

lemma process_file_uncategorized:
  assumes "plain g"
    and "first_category (str_lower e (snd (splitext g))) (categories cfg) = None"
  shows "process_file cfg e fs g =
           (case os_makedirs fs (desktop_dir e @ CHR ''/'' # others_name) of
              Inl err \<Rightarrow> (fs, Inl err)
            | Inr fs1 \<Rightarrow>
                (case shutil_move fs1 (desktop_dir e @ CHR ''/'' # g)
                        (desktop_dir e @ CHR ''/'' # others_name @ CHR ''/'' # g) of
                   (fs', Some err) \<Rightarrow> (fs', Inl err)
                 | (fs', None) \<Rightarrow>
                     (fs', Inr (Unclassified g,
                                \<lparr>original = desktop_dir e @ CHR ''/'' # g,
                                 new_location =
                                   desktop_dir e @ CHR ''/'' # others_name @ CHR ''/'' # g\<rparr>))))"
proof -
  have r: "rooted (desktop_dir e @ CHR ''/'' # others_name)"
    by (rule rooted_join [OF rooted_desktop plain_others])
  have "os_path_join (os_path_join (desktop_dir e) others_name) g =
          desktop_dir e @ CHR ''/'' # others_name @ CHR ''/'' # g"
    using join_plain [OF r assms(1)] by (simp add: join_plain rooted_desktop plain_others)
  then show ?thesis
    using assms by (simp add: process_file_def Let_def join_plain rooted_desktop plain_others split: sum.splits)
qed

text \<open>
  What handling one regular file of the desktop does to the file system: it may create
  the fallback folder; when it succeeds, the file leaves its place and appears at a path
  inside a folder, which is the recorded one unless that was a directory.
\<close>

lemma process_file_effect:
  assumes g: "plain g" and cats: "\<forall>c \<in> fst ` set (categories cfg). plain c"
    and src: "nodes fs (desktop_dir e @ CHR ''/'' # g) = Some (File x)"
    and pf: "process_file cfg e fs g = (fs', out)"
  shows "\<exists>fsm.
           (fsm = fs \<or>
            (nodes fs (desktop_dir e @ CHR ''/'' # others_name) = None \<and>
             fsm = fs\<lparr>nodes := (nodes fs)(desktop_dir e @ CHR ''/'' # others_name \<mapsto> Dir)\<rparr>)) \<and>
           (case out of
              Inl err \<Rightarrow>
                fs' = fsm \<or>
                (\<exists>rd. deep (desktop_dir e) rd \<and> denied fs (desktop_dir e @ CHR ''/'' # g) \<and>
                      fs' = fsm\<lparr>nodes := (nodes fsm)(rd \<mapsto> File x)\<rparr>)
            | Inr (line, rec) \<Rightarrow>
                original rec = desktop_dir e @ CHR ''/'' # g \<and>
                deep (desktop_dir e) (new_location rec) \<and>
                (\<exists>rd. deep (desktop_dir e) rd \<and>
                   (\<not> os_path_isdir fs (new_location rec) \<longrightarrow> rd = new_location rec) \<and>
                   \<not> denied fs (desktop_dir e @ CHR ''/'' # g) \<and> \<not> denied fs rd \<and>
                   fs' = fsm\<lparr>nodes := ((nodes fsm)(desktop_dir e @ CHR ''/'' # g := None))
                                          (rd \<mapsto> File x)\<rparr>))"
proof (cases "first_category (str_lower e (snd (splitext g))) (categories cfg)")
  case (Some c)
  then have c: "plain c" using cats first_category_mem by blast
  have rc: "rooted (desktop_dir e @ CHR ''/'' # c)"
    by (rule rooted_join [OF rooted_desktop c])
  from resolve_form [OF g rc, of e fs] obtain n where
    n: "resolve e fs (desktop_dir e @ CHR ''/'' # c) g = desktop_dir e @ CHR ''/'' # c @ CHR ''/'' # n"
    by auto
  note pc = process_file_categorized [OF g c Some, where fs = fs]
  obtain fs2 r where mv: "shutil_move fs (desktop_dir e @ CHR ''/'' # g)
                  (desktop_dir e @ CHR ''/'' # c @ CHR ''/'' # n) = (fs2, r)"
    by (cases "shutil_move fs (desktop_dir e @ CHR ''/'' # g)
                  (desktop_dir e @ CHR ''/'' # c @ CHR ''/'' # n)")
  show ?thesis
  proof (cases r)
    case (Some err)
    with pc pf n mv have o: "fs' = fs2" "out = Inl err" by simp_all
    from move_into_folder_raises [OF rooted_desktop g c src mv [unfolded Some]]
    have "fs2 = fs \<or>
          (\<exists>rd. deep (desktop_dir e) rd \<and> denied fs (desktop_dir e @ CHR ''/'' # g) \<and>
                fs2 = fs\<lparr>nodes := (nodes fs)(rd \<mapsto> File x)\<rparr>)" .
    then show ?thesis using o by (intro exI [of _ fs]) simp
  next
    case None
    with pc pf n mv have o: "fs' = fs2"
      "out = Inr (Moved g c, \<lparr>original = desktop_dir e @ CHR ''/'' # g,
                 new_location = desktop_dir e @ CHR ''/'' # c @ CHR ''/'' # n\<rparr>)"
      by simp_all
    from move_into_folder [OF rooted_desktop g c src mv [unfolded None]] obtain rd where
      "deep (desktop_dir e) rd"
      "\<not> os_path_isdir fs (desktop_dir e @ CHR ''/'' # c @ CHR ''/'' # n) \<longrightarrow>
              rd = desktop_dir e @ CHR ''/'' # c @ CHR ''/'' # n"
      "\<not> denied fs (desktop_dir e @ CHR ''/'' # g)" "\<not> denied fs rd"
      "fs2 = fs\<lparr>nodes := ((nodes fs)(desktop_dir e @ CHR ''/'' # g := None))(rd \<mapsto> File x)\<rparr>"
      by blast
    then show ?thesis using o deep_intro [OF c, of "desktop_dir e" n]
      by (intro exI [of _ fs]) auto
  qed
next
  case None
  note pu = process_file_uncategorized [OF g None, where fs = fs]
  let ?o = "desktop_dir e @ CHR ''/'' # others_name"
  show ?thesis
  proof (cases "os_makedirs fs ?o")
    case (Inl err)
    with pu pf have "fs' = fs" "out = Inl err" by simp_all
    then show ?thesis by (intro exI [of _ fs]) simp
  next
    case (Inr fs1)
    from os_makedirs_cases [OF Inr] have m:
      "fs1 = fs \<or> (nodes fs ?o = None \<and> fs1 = fs\<lparr>nodes := (nodes fs)(?o \<mapsto> Dir)\<rparr>)"
      by blast
    have ne: "desktop_dir e @ CHR ''/'' # g \<noteq> ?o"
      using m src Inr by (auto simp: os_makedirs_def split: if_splits option.splits node.splits)
    have src1: "nodes fs1 (desktop_dir e @ CHR ''/'' # g) = Some (File x)"
      using m src ne by auto
    have d1: "denied fs1 = denied fs" using m by auto
    have nd: "\<not> deep (desktop_dir e) ?o"
      using not_deep_plain plain_others by (simp add: plain_def)
    obtain fs2 r where mv: "shutil_move fs1 (desktop_dir e @ CHR ''/'' # g) (?o @ CHR ''/'' # g) = (fs2, r)"
      by (cases "shutil_move fs1 (desktop_dir e @ CHR ''/'' # g) (?o @ CHR ''/'' # g)")
    show ?thesis
    proof (cases r)
      case (Some err)
      with pu pf Inr mv have o: "fs' = fs2" "out = Inl err" by simp_all
      from move_into_folder_raises [OF rooted_desktop g plain_others src1, of g fs2 err] mv Some
      have "fs2 = fs1 \<or>
            (\<exists>rd. deep (desktop_dir e) rd \<and> denied fs1 (desktop_dir e @ CHR ''/'' # g) \<and>
                  fs2 = fs1\<lparr>nodes := (nodes fs1)(rd \<mapsto> File x)\<rparr>)"
        by simp
      then show ?thesis using o m d1 by (intro exI [of _ fs1]) auto
    next
      case None
      with pu pf \<open>os_makedirs fs ?o = Inr fs1\<close> mv have o: "fs' = fs2"
        "out = Inr (Unclassified g, \<lparr>original = desktop_dir e @ CHR ''/'' # g,
                   new_location = ?o @ CHR ''/'' # g\<rparr>)"
        by simp_all
      from move_into_folder [OF rooted_desktop g plain_others src1, of g fs2] mv None obtain rd where
        rd: "deep (desktop_dir e) rd"
        "\<not> os_path_isdir fs1 (?o @ CHR ''/'' # g) \<longrightarrow> rd = ?o @ CHR ''/'' # g"
        "\<not> denied fs1 (desktop_dir e @ CHR ''/'' # g)" "\<not> denied fs1 rd"
        "fs2 = fs1\<lparr>nodes := ((nodes fs1)(desktop_dir e @ CHR ''/'' # g := None))(rd \<mapsto> File x)\<rparr>"
        by auto
      have dp: "deep (desktop_dir e) (?o @ CHR ''/'' # g)"
        using deep_intro [OF plain_others, of "desktop_dir e" g] by simp
      have "os_path_isdir fs1 (?o @ CHR ''/'' # g) = os_path_isdir fs (?o @ CHR ''/'' # g)"
        using m dp nd by (auto simp: os_path_isdir_def)
      with rd d1 dp o m show ?thesis
        by (intro exI [of _ fs1]) auto
    qed
  qed
qed

section \<open>Collisions\<close>

text \<open>
  C4, as the code has it. When a file has a category and its destination in the category
  folder exists already, the file is moved to the name with the time, in the same folder;
  provided nothing exists under that name, the move replaces nothing: what was at the
  destination is still there, the incoming file is at the new name, a different path, and
  no other path but the source has changed. (The code does not test whether the name with
  the time is free.)
\<close>

theorem collision_resolution:
  assumes "plain filename" and "plain category"
    and "first_category (str_lower e (snd (splitext filename))) (categories cfg) = Some category"
    and "nodes fs (os_path_join (desktop_dir e) filename) = Some (File x)"
    and "os_path_exists fs (os_path_join (os_path_join (desktop_dir e) category) filename)"
    and "\<not> os_path_exists fs
             (os_path_join (os_path_join (desktop_dir e) category) (new_name e filename))"
    and "\<not> denied fs (os_path_join (desktop_dir e) filename)"
    and "\<not> denied fs (os_path_join (os_path_join (desktop_dir e) category) (new_name e filename))"
  shows "snd (process_file cfg e fs filename) =
           Inr (Moved filename category,
                \<lparr>original = os_path_join (desktop_dir e) filename,
                 new_location = os_path_join (os_path_join (desktop_dir e) category)
                                  (new_name e filename)\<rparr>) \<and>
         nodes (fst (process_file cfg e fs filename))
             (os_path_join (os_path_join (desktop_dir e) category) filename) =
           nodes fs (os_path_join (os_path_join (desktop_dir e) category) filename) \<and>
         nodes (fst (process_file cfg e fs filename))
             (os_path_join (os_path_join (desktop_dir e) category) (new_name e filename)) =
           Some (File x) \<and>
         (\<forall>p. p \<noteq> os_path_join (desktop_dir e) filename \<and>
              p \<noteq> os_path_join (os_path_join (desktop_dir e) category) (new_name e filename) \<longrightarrow>
              nodes (fst (process_file cfg e fs filename)) p = nodes fs p) \<and>
         os_path_join (os_path_join (desktop_dir e) category) (new_name e filename) \<noteq>
           os_path_join (os_path_join (desktop_dir e) category) filename"
proof -
  let ?src = "os_path_join (desktop_dir e) filename"
  let ?dst = "os_path_join (os_path_join (desktop_dir e) category) filename"
  let ?ts = "os_path_join (os_path_join (desktop_dir e) category) (new_name e filename)"
  have r: "resolve e fs (os_path_join (desktop_dir e) category) filename = ?ts"
    using assms(5) by (simp add: resolve_def)
  have st: "?src \<noteq> ?ts" using assms(4,6) by (auto simp: os_path_exists_def)
  have m: "shutil_move fs ?src ?ts =
             (fs\<lparr>nodes := ((nodes fs)(?src := None))(?ts \<mapsto> File x)\<rparr>, None)"
    using assms(4,6,7,8) st
    by (simp add: shutil_move_def move_entry_def os_path_isdir_def os_path_exists_def)
  have p: "process_file cfg e fs filename =
          (fs\<lparr>nodes := ((nodes fs)(?src := None))(?ts \<mapsto> File x)\<rparr>,
           Inr (Moved filename category, \<lparr>original = ?src, new_location = ?ts\<rparr>))"
    using assms(3) r m by (simp add: process_file_def Let_def)
  have ne: "?ts \<noteq> ?dst" using assms(5,6) by auto
  have "?src = desktop_dir e @ CHR ''/'' # filename"
    by (rule join_plain [OF rooted_desktop assms(1)])
  moreover have "?dst = desktop_dir e @ CHR ''/'' # category @ CHR ''/'' # filename"
    using join_plain [OF rooted_join [OF rooted_desktop assms(2)] assms(1)]
    by (simp add: join_plain [OF rooted_desktop assms(2)])
  ultimately have ne2: "?src \<noteq> ?dst"
    proof -
    have "filename \<noteq> category @ CHR ''/'' # filename"
      using assms(1) by (metis plain_def in_set_conv_decomp)
    then show ?thesis using \<open>?src = _\<close> \<open>?dst = _\<close> by simp
  qed
  have d: "nodes (fs\<lparr>nodes := ((nodes fs)(?src := None))(?ts \<mapsto> File x)\<rparr>) ?dst = nodes fs ?dst"
    using ne ne2 by simp
  show ?thesis using p ne d by simp
qed

lemma world_a_paths:
  "os_path_join (desktop_dir env_a) ''a.jpg'' = ''/h/Desktop/a.jpg''"
  "os_path_join (os_path_join (desktop_dir env_a) cat_pictures) ''a.jpg''
     = ''/h/Desktop/'' @ cat_pictures @ ''/a.jpg''"
  "new_name env_a ''a.jpg'' = ''a_120000.jpg''"
  "os_path_join (os_path_join (desktop_dir env_a) cat_pictures) ''a_120000.jpg''
     = ''/h/Desktop/'' @ cat_pictures @ ''/a_120000.jpg''"
  by (simp_all add: env_a_def env_w_def desktop_dir_def os_path_join_def startswith_def
        endswith_def cat_pictures_def new_name_def splitext_def rfind_def)

lemma jpg_is_a_picture:
  "first_category (str_lower env_a (snd (splitext ''a.jpg''))) (categories default_config) = Some cat_pictures"
  by (simp add: splitext_def rfind_def ascii_lower_def lower_char_def default_config_def
        default_categories_def env_a_def env_w_def)

theorem collision_resolution_witness:
  "snd (process_file default_config env_a fs_collision ''a.jpg'') =
     Inr (Moved ''a.jpg'' cat_pictures,
          \<lparr>original = ''/h/Desktop/a.jpg'',
           new_location = ''/h/Desktop/'' @ cat_pictures @ ''/a_120000.jpg''\<rparr>) \<and>
   nodes (fst (process_file default_config env_a fs_collision ''a.jpg''))
       (''/h/Desktop/'' @ cat_pictures @ ''/a.jpg'') = Some (File (Bytes ''old'')) \<and>
   nodes (fst (process_file default_config env_a fs_collision ''a.jpg''))
       (''/h/Desktop/'' @ cat_pictures @ ''/a_120000.jpg'') = Some (File (Bytes ''new''))"
proof -
  have h1: "plain ''a.jpg''" and h2: "plain cat_pictures"
    by (simp_all add: plain_def cat_pictures_def)
  have h4: "nodes fs_collision (os_path_join (desktop_dir env_a) ''a.jpg'') = Some (File (Bytes ''new''))"
    unfolding world_a_paths by (simp add: fs_collision_def cat_pictures_def)
  have h5: "os_path_exists fs_collision
              (os_path_join (os_path_join (desktop_dir env_a) cat_pictures) ''a.jpg'')"
    unfolding world_a_paths by (simp add: fs_collision_def os_path_exists_def)
  have h6: "\<not> os_path_exists fs_collision
              (os_path_join (os_path_join (desktop_dir env_a) cat_pictures) (new_name env_a ''a.jpg''))"
    unfolding world_a_paths by (simp add: fs_collision_def os_path_exists_def cat_pictures_def)
  have h7: "\<not> denied fs_collision (os_path_join (desktop_dir env_a) ''a.jpg'')"
    and h8: "\<not> denied fs_collision
              (os_path_join (os_path_join (desktop_dir env_a) cat_pictures) (new_name env_a ''a.jpg''))"
    by (simp_all add: fs_collision_def)
  have old: "nodes fs_collision (''/h/Desktop/'' @ cat_pictures @ ''/a.jpg'') = Some (File (Bytes ''old''))"
    by (simp add: fs_collision_def)
  show ?thesis
    using collision_resolution [OF h1 h2 jpg_is_a_picture h4 h5 h6 h7 h8, unfolded world_a_paths] old
    by simp
qed

text \<open>
  The claim C4 as the specification words it fails when the name with the time is taken
  too: the run moves the incoming file onto it, and the file that was there is gone.
\<close>

theorem collision_resolution_counterexample:
  "nodes fs_collision_twice (''/h/Desktop/'' @ cat_pictures @ ''/a_120000.jpg'')
     = Some (File (Bytes ''older'')) \<and>
   raised (organize_files default_config env_a fs_collision_twice) = None \<and>
   recorded (organize_files default_config env_a fs_collision_twice) =
     [\<lparr>original = ''/h/Desktop/a.jpg'',
       new_location = ''/h/Desktop/'' @ cat_pictures @ ''/a_120000.jpg''\<rparr>] \<and>
   nodes (fs_after (organize_files default_config env_a fs_collision_twice))
     (''/h/Desktop/'' @ cat_pictures @ ''/a_120000.jpg'') = Some (File (Bytes ''new''))"
  by code_simp

text \<open>
  The branch for files without a category has no test at all: a file of the same name in
  the fallback folder is replaced.
\<close>

lemma fallback_branch_overwrites:
  "nodes fs_fallback (''/h/Desktop/'' @ others_name @ ''/c.xyz'') = Some (File (Bytes ''old'')) \<and>
   raised (organize_files default_config env_c fs_fallback) = None \<and>
   recorded (organize_files default_config env_c fs_fallback) =
     [\<lparr>original = ''/h/Desktop/c.xyz'',
       new_location = ''/h/Desktop/'' @ others_name @ ''/c.xyz''\<rparr>] \<and>
   nodes (fs_after (organize_files default_config env_c fs_fallback))
     (''/h/Desktop/'' @ others_name @ ''/c.xyz'') = Some (File (Bytes ''new''))"
  by code_simp

section \<open>Failures during a batch\<close>

lemma failure_report_is_failure:
  "is_failure (failure_report filename err) \<and> report_file (failure_report filename err) = filename"
  by (simp add: failure_report_def)

lemma process_file_line:
  "process_file cfg e fs filename = (fs', Inr (line, rec)) \<Longrightarrow>
     \<not> is_failure line \<and> report_file line = filename"
  by (auto simp: process_file_def Let_def split: option.splits sum.splits prod.splits)

lemma organize_step_failure:
  assumes "snd (process_file cfg e (fs_now st) filename) = Inl err"
  shows "organize_step cfg e filename st =
           st\<lparr>fs_now := fst (process_file cfg e (fs_now st) filename),
              reports := reports st @ [failure_report filename err]\<rparr>"
  using assms by (cases "process_file cfg e (fs_now st) filename") (simp add: organize_step_def)

lemma organize_step_counts:
  "map report_file (reports (organize_step cfg e filename st)) =
     map report_file (reports st) @ [filename] \<and>
   processed (organize_step cfg e filename st) +
     length (filter is_failure (reports (organize_step cfg e filename st))) =
     processed st + length (filter is_failure (reports st)) + 1"
proof (cases "process_file cfg e (fs_now st) filename")
  case (Pair fs' out)
  show ?thesis
  proof (cases out)
    case (Inl err)
    with Pair show ?thesis
      by (simp add: organize_step_def failure_report_is_failure)
  next
    case (Inr lr)
    obtain line rec where lr: "lr = (line, rec)" by (cases lr)
    with Pair Inr process_file_line [of cfg e "fs_now st" filename fs' line rec]
    show ?thesis by (simp add: organize_step_def)
  qed
qed

lemma organize_loop_counts:
  "map report_file (reports (organize_loop cfg e files st)) =
     map report_file (reports st) @ files \<and>
   processed (organize_loop cfg e files st) +
     length (filter is_failure (reports (organize_loop cfg e files st))) =
     processed st + length (filter is_failure (reports st)) + length files"
proof (induction files arbitrary: st)
  case Nil
  then show ?case by simp
next
  case (Cons f files)
  show ?case
    using Cons [of "organize_step cfg e f st"] organize_step_counts [of cfg e f st]
    by simp
qed

text \<open>
  C5. When the body of the \<open>try\<close> raises for one file, whatever the exception, the loop
  goes on with the next file from the state that file left, after adding one failure line
  that names the file; nothing is counted or recorded for it. So the loop prints exactly
  one line for every file of the batch, in order, and the files counted as moved together
  with the failure lines make up the batch. A run that found the desktop and created the
  category folders reports on every file it set out to organize.
\<close>

theorem failures_stay_local:
  "(snd (process_file cfg e (fs_now st) filename) = Inl err \<longrightarrow>
      organize_loop cfg e (filename # rest) st =
        organize_loop cfg e rest
          (st\<lparr>fs_now := fst (process_file cfg e (fs_now st) filename),
              reports := reports st @ [failure_report filename err]\<rparr>) \<and>
      is_failure (failure_report filename err) \<and>
      report_file (failure_report filename err) = filename) \<and>
   map report_file (reports (organize_loop cfg e files st)) =
     map report_file (reports st) @ files \<and>
   processed (organize_loop cfg e files st) +
     length (filter is_failure (reports (organize_loop cfg e files st))) =
     processed st + length (filter is_failure (reports st)) + length files \<and>
   (os_path_isdir fs (desktop_dir e) \<and>
    snd (make_dirs fs (desktop_dir e) (map fst (categories cfg))) = None \<longrightarrow>
      map report_file (lines (organize_files cfg e fs)) = desktop_files cfg e fs \<and>
      moved_count (organize_files cfg e fs) +
        length (filter is_failure (lines (organize_files cfg e fs))) =
        total_files (organize_files cfg e fs) \<and>
      total_files (organize_files cfg e fs) = length (desktop_files cfg e fs))"
proof (intro conjI impI)
  assume a: "snd (process_file cfg e (fs_now st) filename) = Inl err"
  show "organize_loop cfg e (filename # rest) st =
        organize_loop cfg e rest
          (st\<lparr>fs_now := fst (process_file cfg e (fs_now st) filename),
              reports := reports st @ [failure_report filename err]\<rparr>)"
    by (simp add: organize_step_failure [OF a])
  show "is_failure (failure_report filename err)"
    and "report_file (failure_report filename err) = filename"
    by (simp_all add: failure_report_is_failure)
next
  show "map report_file (reports (organize_loop cfg e files st)) =
     map report_file (reports st) @ files"
    and "processed (organize_loop cfg e files st) +
     length (filter is_failure (reports (organize_loop cfg e files st))) =
     processed st + length (filter is_failure (reports st)) + length files"
    using organize_loop_counts [of cfg e files st] by simp_all
next
  assume a: "os_path_isdir fs (desktop_dir e) \<and>
    snd (make_dirs fs (desktop_dir e) (map fst (categories cfg))) = None"
  obtain fs1 where m: "make_dirs fs (desktop_dir e) (map fst (categories cfg)) = (fs1, None)"
    using a by (cases "make_dirs fs (desktop_dir e) (map fst (categories cfg))") auto
  let ?st = "organize_loop cfg e (desktop_files cfg e fs)
               \<lparr>fs_now = fs1, ops = [], processed = 0, reports = []\<rparr>"
  have r: "lines (organize_files cfg e fs) = reports ?st \<and>
           moved_count (organize_files cfg e fs) = processed ?st \<and>
           total_files (organize_files cfg e fs) = length (desktop_files cfg e fs)"
    using a m by (simp add: organize_files_def Let_def split: sum.splits)
  note c = organize_loop_counts [of cfg e "desktop_files cfg e fs"
             "\<lparr>fs_now = fs1, ops = [], processed = 0, reports = []\<rparr>"]
  show "map report_file (lines (organize_files cfg e fs)) = desktop_files cfg e fs"
    using r c by simp
  show "moved_count (organize_files cfg e fs) +
        length (filter is_failure (lines (organize_files cfg e fs))) =
        total_files (organize_files cfg e fs)"
    using r c by simp
  show "total_files (organize_files cfg e fs) = length (desktop_files cfg e fs)"
    using r by simp
qed

lemma batch_run:
  "os_path_isdir fs_batch (desktop_dir env_batch)"
  "snd (make_dirs fs_batch (desktop_dir env_batch) (map fst (categories default_config))) = None"
  "desktop_files default_config env_batch fs_batch = [''a.jpg'', ''b.txt'', ''c.xyz'']"
  "lines (organize_files default_config env_batch fs_batch) =
     [NoPermission ''a.jpg'', Moved ''b.txt'' cat_documents, Failed ''c.xyz'' FileExistsError]"
  "moved_count (organize_files default_config env_batch fs_batch) = 1"
  "raised (organize_files default_config env_batch fs_batch) = None"
  by code_simp+

theorem failures_stay_local_witness:
  "os_path_isdir fs_batch (desktop_dir env_batch) \<and>
   snd (make_dirs fs_batch (desktop_dir env_batch) (map fst (categories default_config))) = None \<and>
   lines (organize_files default_config env_batch fs_batch) =
     [NoPermission ''a.jpg'', Moved ''b.txt'' cat_documents, Failed ''c.xyz'' FileExistsError] \<and>
   map report_file (lines (organize_files default_config env_batch fs_batch)) =
     [''a.jpg'', ''b.txt'', ''c.xyz''] \<and>
   moved_count (organize_files default_config env_batch fs_batch) +
     length (filter is_failure (lines (organize_files default_config env_batch fs_batch))) = 3 \<and>
   raised (organize_files default_config env_batch fs_batch) = None"
proof -
  note t = failures_stay_local [of default_config env_batch
          "\<lparr>fs_now = fs_batch, ops = [], processed = 0, reports = []\<rparr>" "''a.jpg''"
          PermissionError "[]" "[]" fs_batch]
  note u = t [THEN conjunct2, THEN conjunct2, THEN conjunct2, THEN mp,
              OF conjI [OF batch_run(1) batch_run(2)]]
  have "map report_file (lines (organize_files default_config env_batch fs_batch)) =
          [''a.jpg'', ''b.txt'', ''c.xyz'']"
    using u [THEN conjunct1] by (simp only: batch_run(3))
  moreover have "moved_count (organize_files default_config env_batch fs_batch) +
     length (filter is_failure (lines (organize_files default_config env_batch fs_batch))) = 3"
    using u [THEN conjunct2] by (simp only: batch_run(3)) simp
  ultimately show ?thesis
    using batch_run(1,2,4,6) by (intro conjI)
qed

section \<open>Restoring from a log\<close>

lemma denied_makedirs: "os_makedirs fs p = Inr fs' \<Longrightarrow> denied fs' = denied fs"
  by (auto dest: os_makedirs_cases)

lemma denied_move_entry: "denied (fst (move_entry fs src dst)) = denied fs"
  by (simp add: move_entry_def split: option.splits node.splits)

lemma denied_shutil_move: "denied (fst (shutil_move fs src dst)) = denied fs"
  by (simp add: shutil_move_def Let_def denied_move_entry)

lemma denied_restore_step: "denied (fst (restore_step fs op)) = denied fs"
proof (cases "os_makedirs fs (dirname (original op))")
  case (Inl err)
  then show ?thesis by (simp add: restore_step_def)
next
  case (Inr fs1)
  have d1: "denied fs1 = denied fs" using Inr by (rule denied_makedirs)
  obtain fs2 r where mv: "shutil_move fs1 (new_location op) (original op) = (fs2, r)"
    by (cases "shutil_move fs1 (new_location op) (original op)")
  have "denied fs2 = denied fs1"
    using denied_shutil_move [of fs1 "new_location op" "original op"] mv by simp
  with Inr mv d1 show ?thesis
    by (cases r) (simp_all add: restore_step_def Let_def)
qed

lemma restore_one_facts:
  "denied (rfs_now (restore_one op st)) = denied (rfs_now st) \<and>
   length (printed (restore_one op st)) = length (printed st) + 1 \<and>
   success_count (restore_one op st) + length (filter is_restored (printed st)) =
     success_count st + length (filter is_restored (printed (restore_one op st)))"
proof (cases "restore_step (rfs_now st) op")
  case (Pair fs' line)
  then have "denied fs' = denied (rfs_now st)"
    using denied_restore_step [of "rfs_now st" op] by simp
  with Pair show ?thesis
    by (cases line) (simp_all add: restore_one_def)
qed

lemma restore_loop_facts:
  "denied (rfs_now (restore_loop rs st)) = denied (rfs_now st) \<and>
   length (printed (restore_loop rs st)) = length (printed st) + length rs \<and>
   success_count (restore_loop rs st) + length (filter is_restored (printed st)) =
     success_count st + length (filter is_restored (printed (restore_loop rs st)))"
proof (induction rs arbitrary: st)
  case Nil
  then show ?case by simp
next
  case (Cons r rs)
  show ?case
    using Cons [of "restore_one r st"] restore_one_facts [of r st] by simp
qed

lemma os_remove_gone:
  "\<not> denied fs p \<Longrightarrow>
     (case os_remove fs p of
        Inl err \<Rightarrow> \<not> os_path_isfile fs p \<and> (err = FileNotFoundError \<or> err = IsADirectoryError)
      | Inr fs' \<Rightarrow> nodes fs' p = None)"
  by (auto simp: os_remove_def os_path_isfile_def split: option.splits node.splits)

lemma restore_step_missing:
  assumes "os_makedirs fs (dirname (original op)) = Inr fs1"
    and "\<not> os_path_exists fs1 (new_location op)"
  shows "restore_step fs op = (fs1, Missing (basename (new_location op)))"
  using assms by (simp add: restore_step_def Let_def)

text \<open>
  On elements that are all records of two strings, the loop of \<open>restore_files\<close> is
  \<open>restore_loop\<close>: the \<open>except\<close> clause finds \<open>dst\<close> bound to a string every time.
\<close>

lemma record_of_entry:
  "record_of op = Inr r \<Longrightarrow>
     restore_entry op dst st = (Some (JStr (original r)), restore_one r st, None)"
  by (auto simp: record_of_def restore_entry_def split: sum.splits json.splits)

lemma records_of_Inr: "records_of xs = Inr rs \<longleftrightarrow> map record_of xs = map Inr rs"
proof (induction xs arbitrary: rs)
  case Nil
  then show ?case by auto
next
  case (Cons x xs)
  show ?case
  proof (cases rs)
    case Nil
    then show ?thesis by (auto split: sum.splits)
  next
    case (Cons r rs')
    then show ?thesis using Cons.IH [of rs'] by (auto split: sum.splits)
  qed
qed

lemma records_of_rev: "records_of xs = Inr rs \<Longrightarrow> records_of (rev xs) = Inr (rev rs)"
  unfolding records_of_Inr by (metis rev_map)

lemma records_of_length: "records_of xs = Inr rs \<Longrightarrow> length xs = length rs"
  unfolding records_of_Inr by (metis length_map)

lemma restore_entries_records:
  "records_of xs = Inr rs \<Longrightarrow> restore_entries xs dst st = (restore_loop rs st, None)"
proof (induction xs arbitrary: rs dst st)
  case Nil
  then show ?case by simp
next
  case (Cons x xs)
  from Cons.prems obtain r rs' where
    r: "record_of x = Inr r" "records_of xs = Inr rs'" "rs = r # rs'"
    by (auto split: sum.splits)
  have "restore_entries (x # xs) dst st = restore_entries xs (Some (JStr (original r))) (restore_one r st)"
    using record_of_entry [OF r(1)] by simp
  then show ?case using Cons.IH [OF r(2)] r(3) by simp
qed

lemma read_log_cases:
  assumes "read_log fs p = Inr records"
  shows "\<exists>kvs. load_json fs p = Inr (JObj kvs) \<and>
           ((records = [] \<and>
             \<not> truthy (case map_of kvs ''operations'' of Some v \<Rightarrow> v | None \<Rightarrow> JArr [])) \<or>
            (records \<noteq> [] \<and>
             (\<exists>xs. map_of kvs ''operations'' = Some (JArr xs) \<and> records_of xs = Inr records)))"
proof -
  from assms obtain kvs where l: "load_json fs p = Inr (JObj kvs)"
    by (auto simp: read_log_def split: sum.splits json.splits)
  show ?thesis
  proof (cases "map_of kvs ''operations''")
    case None
    with assms l show ?thesis by (simp add: read_log_def)
  next
    case (Some v)
    show ?thesis
    proof (cases "\<exists>xs. v = JArr xs")
      case True
      then obtain xs where xs: "v = JArr xs" by blast
      with assms l Some have ro: "records_of xs = Inr records" by (simp add: read_log_def)
      show ?thesis
      proof (cases "records = []")
        case True
        with ro have "xs = []" using records_of_length by fastforce
        with True l Some xs show ?thesis by simp
      next
        case False
        with l Some xs ro show ?thesis by simp
      qed
    next
      case False
      with assms l Some have "records = [] \<and> \<not> truthy v"
        by (cases v) (auto simp: read_log_def split: if_splits)
      with l Some show ?thesis by simp
    qed
  qed
qed

lemma load_json_exists: "load_json fs p = Inr j \<Longrightarrow> os_path_exists fs p"
  by (auto simp: load_json_def os_path_exists_def split: option.splits)

lemma restore_files_no_records:
  assumes "read_log fs (chosen_log_path e log_path_arg) = Inr []"
  shows "restore_files e fs log_path_arg = \<lparr>restored_fs = fs, restore_lines = [], ended = NoRecords\<rparr>"
proof -
  from read_log_cases [OF assms] obtain kvs where
    l: "load_json fs (chosen_log_path e log_path_arg) = Inr (JObj kvs)"
    and t: "\<not> truthy (case map_of kvs ''operations'' of Some v \<Rightarrow> v | None \<Rightarrow> JArr [])"
    by auto
  show ?thesis
    using l t load_json_exists [OF l] by (simp add: restore_files_def Let_def)
qed

lemma restore_files_records:
  assumes "read_log fs (chosen_log_path e log_path_arg) = Inr records" and "records \<noteq> []"
  shows "restore_files e fs log_path_arg =
           (case os_remove
                   (rfs_now (restore_loop (rev records) \<lparr>rfs_now = fs, success_count = 0, printed = []\<rparr>))
                   (chosen_log_path e log_path_arg) of
              Inl err \<Rightarrow>
                \<lparr>restored_fs =
                   rfs_now (restore_loop (rev records) \<lparr>rfs_now = fs, success_count = 0, printed = []\<rparr>),
                 restore_lines =
                   printed (restore_loop (rev records) \<lparr>rfs_now = fs, success_count = 0, printed = []\<rparr>),
                 ended = RestoreError err\<rparr>
            | Inr fs' \<Rightarrow>
                \<lparr>restored_fs = fs',
                 restore_lines =
                   printed (restore_loop (rev records) \<lparr>rfs_now = fs, success_count = 0, printed = []\<rparr>),
                 ended = Completed
                   (success_count (restore_loop (rev records) \<lparr>rfs_now = fs, success_count = 0, printed = []\<rparr>))
                   (length records)\<rparr>)"
proof -
  from read_log_cases [OF assms(1)] assms(2) obtain kvs xs where
    l: "load_json fs (chosen_log_path e log_path_arg) = Inr (JObj kvs)"
    and o: "map_of kvs ''operations'' = Some (JArr xs)"
    and ro: "records_of xs = Inr records"
    by auto
  have len: "length xs = length records" using ro by (rule records_of_length)
  then have ne: "xs \<noteq> []" using assms(2) by auto
  have loop: "restore_entries (rev xs) None \<lparr>rfs_now = fs, success_count = 0, printed = []\<rparr> =
          (restore_loop (rev records) \<lparr>rfs_now = fs, success_count = 0, printed = []\<rparr>, None)"
    by (rule restore_entries_records [OF records_of_rev [OF ro]])
  show ?thesis
    using l o ne len loop load_json_exists [OF l]
    by (simp add: restore_files_def Let_def split: sum.splits)
qed

text \<open>
  C6. When the log has no operations, \<open>restore_files\<close> reports it and changes nothing:
  the log stays. When it has some, every record is attempted (one line each), the count
  of successes is the number of restored lines, and then the log is removed whatever the
  lines say: provided the operating system lets the log be removed, no file is left at
  the log path. A record whose new location does not exist gives a warning line, leaves
  the count as it is, and the loop goes on with the next record.
\<close>

theorem restore_deletes_log:
  "(read_log fs (chosen_log_path e log_path_arg) = Inr [] \<longrightarrow>
      restore_files e fs log_path_arg = \<lparr>restored_fs = fs, restore_lines = [], ended = NoRecords\<rparr>) \<and>
   (read_log fs (chosen_log_path e log_path_arg) = Inr records \<and> records \<noteq> [] \<and>
    \<not> denied fs (chosen_log_path e log_path_arg) \<longrightarrow>
      length (restore_lines (restore_files e fs log_path_arg)) = length records \<and>
      \<not> os_path_isfile (restored_fs (restore_files e fs log_path_arg))
          (chosen_log_path e log_path_arg) \<and>
      (ended (restore_files e fs log_path_arg) =
         Completed (length (filter is_restored (restore_lines (restore_files e fs log_path_arg))))
           (length records) \<or>
       ended (restore_files e fs log_path_arg) = RestoreError FileNotFoundError \<or>
       ended (restore_files e fs log_path_arg) = RestoreError IsADirectoryError)) \<and>
   (os_makedirs (rfs_now st) (dirname (original op)) = Inr fs1 \<and>
    \<not> os_path_exists fs1 (new_location op) \<longrightarrow>
      restore_loop (op # rest) st =
        restore_loop rest
          \<lparr>rfs_now = fs1, success_count = success_count st,
           printed = printed st @ [Missing (basename (new_location op))]\<rparr>)"
proof (intro conjI impI)
  assume "read_log fs (chosen_log_path e log_path_arg) = Inr []"
  then show "restore_files e fs log_path_arg =
      \<lparr>restored_fs = fs, restore_lines = [], ended = NoRecords\<rparr>"
    by (rule restore_files_no_records)
next
  assume a: "os_makedirs (rfs_now st) (dirname (original op)) = Inr fs1 \<and>
    \<not> os_path_exists fs1 (new_location op)"
  then have "restore_step (rfs_now st) op = (fs1, Missing (basename (new_location op)))"
    using restore_step_missing by blast
  then show "restore_loop (op # rest) st =
        restore_loop rest
          \<lparr>rfs_now = fs1, success_count = success_count st,
           printed = printed st @ [Missing (basename (new_location op))]\<rparr>"
    by (simp add: restore_one_def)
next
  let ?lp = "chosen_log_path e log_path_arg"
  let ?r = "restore_files e fs log_path_arg"
  let ?st = "restore_loop (rev records) \<lparr>rfs_now = fs, success_count = 0, printed = []\<rparr>"
  assume a: "read_log fs ?lp = Inr records \<and> records \<noteq> [] \<and> \<not> denied fs ?lp"
  have r: "?r = (case os_remove (rfs_now ?st) ?lp of
                   Inl err \<Rightarrow> \<lparr>restored_fs = rfs_now ?st, restore_lines = printed ?st,
                               ended = RestoreError err\<rparr>
                 | Inr fs' \<Rightarrow> \<lparr>restored_fs = fs', restore_lines = printed ?st,
                               ended = Completed (success_count ?st) (length records)\<rparr>)"
    using a restore_files_records [of fs e log_path_arg records] by simp
  note f = restore_loop_facts [of "rev records" "\<lparr>rfs_now = fs, success_count = 0, printed = []\<rparr>"]
  have nd: "\<not> denied (rfs_now ?st) ?lp" using f a by simp
  note g = os_remove_gone [OF nd]
  show "length (restore_lines ?r) = length records"
    using r f by (simp split: sum.splits)
  show "\<not> os_path_isfile (restored_fs ?r) ?lp"
    using r g by (auto simp: os_path_isfile_def split: sum.splits)
  show "ended ?r = Completed (length (filter is_restored (restore_lines ?r))) (length records) \<or>
        ended ?r = RestoreError FileNotFoundError \<or>
        ended ?r = RestoreError IsADirectoryError"
    using r g f by (auto split: sum.splits)
qed

lemma lost_run:
  "read_log fs_lost (chosen_log_path env_w []) = Inr [lost_record]"
  "\<not> denied fs_lost (chosen_log_path env_w [])"
  "restore_lines (restore_files env_w fs_lost []) = [Missing ''a.jpg'']"
  "ended (restore_files env_w fs_lost []) = Completed 0 1"
  "nodes (restored_fs (restore_files env_w fs_lost [])) (chosen_log_path env_w []) = None"
  "read_log fs_empty_log (chosen_log_path env_w []) = Inr []"
  by code_simp+

theorem restore_deletes_log_witness:
  "read_log fs_lost (chosen_log_path env_w []) = Inr [lost_record] \<and>
   \<not> denied fs_lost (chosen_log_path env_w []) \<and>
   length (restore_lines (restore_files env_w fs_lost [])) = 1 \<and>
   \<not> os_path_isfile (restored_fs (restore_files env_w fs_lost [])) (chosen_log_path env_w []) \<and>
   ended (restore_files env_w fs_lost []) = Completed 0 1 \<and>
   restore_lines (restore_files env_w fs_lost []) = [Missing ''a.jpg''] \<and>
   restore_files env_w fs_empty_log [] =
     \<lparr>restored_fs = fs_empty_log, restore_lines = [], ended = NoRecords\<rparr>"
proof -
  note t = restore_deletes_log [of fs_lost env_w "[]" "[lost_record]"]
  have h: "read_log fs_lost (chosen_log_path env_w []) = Inr [lost_record] \<and>
           [lost_record] \<noteq> [] \<and> \<not> denied fs_lost (chosen_log_path env_w [])"
    using lost_run(1,2) by simp
  note u = t [THEN conjunct2, THEN conjunct1, THEN mp, OF h]
  note v = restore_deletes_log [of fs_empty_log env_w "[]", THEN conjunct1, THEN mp, OF lost_run(6)]
  show ?thesis
    using u [THEN conjunct1] u [THEN conjunct2, THEN conjunct1] v lost_run(1,2,3,4)
    by simp
qed

section \<open>Merging an override\<close>

lemma map_of_fold_update:
  "distinct (map fst kvs) \<Longrightarrow>
     map_of (fold (\<lambda>(k, v). AList.update k v) kvs d) key =
       (case map_of kvs key of Some x \<Rightarrow> Some x | None \<Rightarrow> map_of d key)"
proof (induction kvs arbitrary: d)
  case Nil
  then show ?case by simp
next
  case (Cons kv kvs)
  obtain k v where kv: "kv = (k, v)" by (cases kv)
  have n: "map_of kvs k = None"
    using Cons.prems kv by (simp add: map_of_eq_None_iff)
  have "map_of (fold (\<lambda>(k, v). AList.update k v) kvs (AList.update k v d)) key =
          (case map_of kvs key of Some x \<Rightarrow> Some x | None \<Rightarrow> map_of (AList.update k v d) key)"
    using Cons.IH [of "AList.update k v d"] Cons.prems by simp
  then show ?case
    using kv n by (auto simp: update_conv' split: option.splits)
qed

lemma map_of_view: "map_of (view st c) k = map_option (deref st) (map_of c k)"
  by (induction c) (auto simp: view_def)

lemma merge_key_plain:
  "not_a_dict (map_of conf key) \<Longrightarrow>
     merge_key key v (conf, st) = ((AList.update key (Plain v) conf, st), None)"
  by (auto simp: merge_key_def not_a_dict_def split: option.splits pyval.splits json.splits)

lemma merge_key_ref:
  "map_of conf key = Some (DictRef a) \<Longrightarrow> heap st a = Some d \<Longrightarrow>
     merge_key key (JObj kvs) (conf, st) =
       ((conf, st\<lparr>heap := (heap st)(a \<mapsto> fold (\<lambda>(k, v). AList.update k v) kvs d)\<rparr>), None)"
  by (simp add: merge_key_def)

lemma merge_loop_char:
  assumes "distinct (map fst u)"
    and "map_of conf ''categories'' = Some (DictRef 0)"
    and "heap st 0 = Some d"
    and "\<forall>k \<in> fst ` set u. k \<noteq> ''categories'' \<longrightarrow> not_a_dict (map_of conf k)"
    and "\<forall>v. map_of u ''categories'' = Some v \<longrightarrow> (\<exists>kvs. v = JObj kvs)"
  shows "\<exists>conf' st'. merge_loop u (conf, st) = ((conf', st'), None) \<and>
           map_of conf' ''categories'' = Some (DictRef 0) \<and>
           heap st' 0 = Some (case map_of u ''categories'' of
                                Some (JObj kvs) \<Rightarrow> fold (\<lambda>(k, v). AList.update k v) kvs d
                              | _ \<Rightarrow> d) \<and>
           (\<forall>k. k \<noteq> ''categories'' \<longrightarrow>
              map_of conf' k = (case map_of u k of Some v \<Rightarrow> Some (Plain v)
                                  | None \<Rightarrow> map_of conf k)) \<and>
           DEFAULT_CONFIG st' = DEFAULT_CONFIG st"
  using assms
proof (induction u arbitrary: conf st d)
  case Nil
  then show ?case by simp
next
  case (Cons kv u)
  obtain k v where kv: "kv = (k, v)" by (cases kv)
  have dist: "distinct (map fst u)" and knew: "map_of u k = None"
    using Cons.prems(1) kv by (simp_all add: map_of_eq_None_iff)
  show ?case
  proof (cases "k = ''categories''")
    case True
    then obtain kvs where v: "v = JObj kvs" using Cons.prems(5) kv by auto
    let ?d = "fold (\<lambda>(k, v). AList.update k v) kvs d"
    let ?st = "st\<lparr>heap := (heap st)(0 \<mapsto> ?d)\<rparr>"
    have mk: "merge_key k v (conf, st) = ((conf, ?st), None)"
      using merge_key_ref [OF Cons.prems(2,3)] True v by simp
    have p4: "\<forall>k \<in> fst ` set u. k \<noteq> ''categories'' \<longrightarrow> not_a_dict (map_of conf k)"
      using Cons.prems(4) by simp
    have p5: "\<forall>v. map_of u ''categories'' = Some v \<longrightarrow> (\<exists>kvs. v = JObj kvs)"
      using knew True by simp
    from Cons.IH [OF dist Cons.prems(2) _ p4 p5, of ?st ?d]
    obtain conf' st' where
      ih: "merge_loop u (conf, ?st) = ((conf', st'), None)"
          "map_of conf' ''categories'' = Some (DictRef 0)"
          "heap st' 0 = Some (case map_of u ''categories'' of
                                Some (JObj kvs) \<Rightarrow> fold (\<lambda>(k, v). AList.update k v) kvs ?d
                              | _ \<Rightarrow> ?d)"
          "\<forall>k. k \<noteq> ''categories'' \<longrightarrow>
              map_of conf' k = (case map_of u k of Some v \<Rightarrow> Some (Plain v)
                                  | None \<Rightarrow> map_of conf k)"
          "DEFAULT_CONFIG st' = DEFAULT_CONFIG ?st"
      by auto
    show ?thesis
      using ih mk kv True v knew
      by (intro exI [of _ conf'] exI [of _ st']) simp
  next
    case False
    have nd: "not_a_dict (map_of conf k)" using Cons.prems(4) kv False by simp
    let ?c = "AList.update k (Plain v) conf"
    have mk: "merge_key k v (conf, st) = ((?c, st), None)"
      using merge_key_plain [OF nd] by simp
    have p2: "map_of ?c ''categories'' = Some (DictRef 0)"
      using Cons.prems(2) False by (simp add: update_conv')
    have p4: "\<forall>k' \<in> fst ` set u. k' \<noteq> ''categories'' \<longrightarrow> not_a_dict (map_of ?c k')"
    proof (intro ballI impI)
      fix k' assume a: "k' \<in> fst ` set u" "k' \<noteq> ''categories''"
      then have "k' \<noteq> k" using Cons.prems(1) kv by auto
      then show "not_a_dict (map_of ?c k')"
        using Cons.prems(4) a by (auto simp: update_conv')
    qed
    have p5: "\<forall>v. map_of u ''categories'' = Some v \<longrightarrow> (\<exists>kvs. v = JObj kvs)"
      using Cons.prems(5) kv False by simp
    from Cons.IH [OF dist p2 Cons.prems(3) p4 p5]
    obtain conf' st' where
      ih: "merge_loop u (?c, st) = ((conf', st'), None)"
          "map_of conf' ''categories'' = Some (DictRef 0)"
          "heap st' 0 = Some (case map_of u ''categories'' of
                                Some (JObj kvs) \<Rightarrow> fold (\<lambda>(k, v). AList.update k v) kvs d
                              | _ \<Rightarrow> d)"
          "\<forall>k'. k' \<noteq> ''categories'' \<longrightarrow>
              map_of conf' k' = (case map_of u k' of Some v \<Rightarrow> Some (Plain v)
                                  | None \<Rightarrow> map_of ?c k')"
          "DEFAULT_CONFIG st' = DEFAULT_CONFIG st"
      by auto
    show ?thesis
      using ih mk kv False knew
      by (intro exI [of _ conf'] exI [of _ st']) (auto simp: update_conv' split: option.splits)
  qed
qed

lemma default_config_shape:
  "map_of (DEFAULT_CONFIG initial_state) ''categories'' = Some (DictRef 0)"
  "heap initial_state 0 = Some (map (\<lambda>(c, exts). (c, strs exts)) default_categories)"
  "k \<noteq> ''categories'' \<Longrightarrow> not_a_dict (map_of (DEFAULT_CONFIG initial_state) k)"
  by (simp_all add: initial_state_def not_a_dict_def strs_def)

lemma default_view_mapping:
  "map_of default_view k = Some (JObj d0) \<longleftrightarrow>
     k = ''categories'' \<and> d0 = map (\<lambda>(c, exts). (c, strs exts)) default_categories"
  by (auto simp: default_view_def view_def deref_def initial_state_def strs_def)

text \<open>
  C8, as the code has it. A file that cannot be read or parsed leaves the default as it
  is and gives a warning. For a document whose keys each have one value, provided the
  value it gives to a key whose default is a mapping is a mapping too: no warning is
  given; such a key is merged one level deep (the entries of the override replace those
  of the same name, the other default entries stay); every other key of the document
  gets the value of the document; the keys the document does not have keep their default.
  (The code tests only whether the default is a mapping.)
\<close>

theorem load_config_merge:
  assumes "distinct (map fst u)"
    and "\<forall>k v d0. map_of u k = Some v \<and> map_of default_view k = Some (JObj d0) \<longrightarrow>
           (\<exists>kvs. v = JObj kvs \<and> distinct (map fst kvs))"
  shows "load_config st (Unreadable err) =
           \<lparr>config = DEFAULT_CONFIG st, state_after = st, warning = Some err\<rparr> \<and>
         warning (load_config initial_state (Document u)) = None \<and>
         (\<forall>k v. map_of u k = Some v \<longrightarrow>
            (case map_of default_view k of
               Some (JObj d0) \<Rightarrow>
                 (\<exists>kvs d. v = JObj kvs \<and>
                    map_of (shown (load_config initial_state (Document u))) k = Some (JObj d) \<and>
                    (\<forall>key. map_of d key =
                       (case map_of kvs key of Some x \<Rightarrow> Some x | None \<Rightarrow> map_of d0 key)))
             | _ \<Rightarrow>
                 map_of (shown (load_config initial_state (Document u))) k = Some v)) \<and>
         (\<forall>k. map_of u k = None \<longrightarrow>
            map_of (shown (load_config initial_state (Document u))) k = map_of default_view k)"
proof -
  let ?d = "map (\<lambda>(c, exts). (c, strs exts)) default_categories"
  have cat: "\<forall>v. map_of u ''categories'' = Some v \<longrightarrow> (\<exists>kvs. v = JObj kvs \<and> distinct (map fst kvs))"
    using assms(2) default_view_mapping by blast
  then have cat': "\<forall>v. map_of u ''categories'' = Some v \<longrightarrow> (\<exists>kvs. v = JObj kvs)" by blast
  from merge_loop_char [OF assms(1) default_config_shape(1,2) _ cat']
  obtain conf' st' where
    m: "merge_loop u (DEFAULT_CONFIG initial_state, initial_state) = ((conf', st'), None)"
       "map_of conf' ''categories'' = Some (DictRef 0)"
       "heap st' 0 = Some (case map_of u ''categories'' of
                            Some (JObj kvs) \<Rightarrow> fold (\<lambda>(k, v). AList.update k v) kvs ?d
                          | _ \<Rightarrow> ?d)"
       "\<forall>k. k \<noteq> ''categories'' \<longrightarrow>
          map_of conf' k = (case map_of u k of Some v \<Rightarrow> Some (Plain v)
                            | None \<Rightarrow> map_of (DEFAULT_CONFIG initial_state) k)"
    using default_config_shape(3) by auto
  let ?r = "load_config initial_state (Document u)"
  have r: "config ?r = conf'" "state_after ?r = st'" "warning ?r = None"
    using m(1) by (simp_all add: load_config_def)
  let ?c = "shown ?r"
  have v: "\<And>k. map_of ?c k = map_option (deref st') (map_of conf' k)"
    by (simp add: shown_def r map_of_view)
  have vc: "map_of ?c ''categories'' =
              Some (JObj (case map_of u ''categories'' of
                            Some (JObj kvs) \<Rightarrow> fold (\<lambda>(k, v). AList.update k v) kvs ?d
                          | _ \<Rightarrow> ?d))"
    by (simp add: v m(2,3) deref_def)
  have vo: "\<And>k. k \<noteq> ''categories'' \<Longrightarrow>
              map_of ?c k = (case map_of u k of Some v \<Rightarrow> Some v | None \<Rightarrow> map_of default_view k)"
  proof -
    fix k :: string assume k: "k \<noteq> ''categories''"
    have "map_of default_view k = map_option (deref initial_state) (map_of (DEFAULT_CONFIG initial_state) k)"
      by (simp add: default_view_def map_of_view)
    moreover have "\<And>j. map_of (DEFAULT_CONFIG initial_state) k = Some j \<Longrightarrow>
                    deref st' j = deref initial_state j"
      using k by (auto simp: initial_state_def deref_def split: if_splits)
    then have "map_option (deref st') (map_of (DEFAULT_CONFIG initial_state) k) =
                 map_option (deref initial_state) (map_of (DEFAULT_CONFIG initial_state) k)"
      by (cases "map_of (DEFAULT_CONFIG initial_state) k") simp_all
    ultimately have dv: "map_of default_view k =
                           map_option (deref st') (map_of (DEFAULT_CONFIG initial_state) k)"
      by simp
    show "map_of ?c k = (case map_of u k of Some v \<Rightarrow> Some v | None \<Rightarrow> map_of default_view k)"
    proof (cases "map_of u k")
      case None
      then show ?thesis using m(4) k dv by (simp add: v)
    next
      case (Some w)
      then show ?thesis using m(4) k by (simp add: v deref_def)
    qed
  qed
  have p1: "load_config st (Unreadable err) =
           \<lparr>config = DEFAULT_CONFIG st, state_after = st, warning = Some err\<rparr>"
    by (simp add: load_config_def)
  have p3: "\<forall>k v. map_of u k = Some v \<longrightarrow>
            (case map_of default_view k of
               Some (JObj d0) \<Rightarrow>
                 (\<exists>kvs d. v = JObj kvs \<and> map_of ?c k = Some (JObj d) \<and>
                    (\<forall>key. map_of d key =
                       (case map_of kvs key of Some x \<Rightarrow> Some x | None \<Rightarrow> map_of d0 key)))
             | _ \<Rightarrow> map_of ?c k = Some v)"
  proof (intro allI impI)
    fix k v assume kv: "map_of u k = Some v"
    show "case map_of default_view k of
               Some (JObj d0) \<Rightarrow>
                 (\<exists>kvs d. v = JObj kvs \<and> map_of ?c k = Some (JObj d) \<and>
                    (\<forall>key. map_of d key =
                       (case map_of kvs key of Some x \<Rightarrow> Some x | None \<Rightarrow> map_of d0 key)))
             | _ \<Rightarrow> map_of ?c k = Some v"
    proof (cases "k = ''categories''")
      case True
      then obtain kvs where kvs: "v = JObj kvs" "distinct (map fst kvs)"
        using cat kv by blast
      have dv: "map_of default_view k = Some (JObj ?d)"
        using True default_view_mapping by blast
      have "map_of ?c k = Some (JObj (fold (\<lambda>(k, v). AList.update k v) kvs ?d))"
        using vc True kv kvs by simp
      then show ?thesis
        using dv kvs map_of_fold_update [OF kvs(2), of ?d] by simp
    next
      case False
      then have "\<forall>d0. map_of default_view k \<noteq> Some (JObj d0)"
        using default_view_mapping by blast
      moreover have "map_of ?c k = Some v" using vo [OF False] kv by simp
      ultimately show ?thesis
        by (auto split: option.splits json.splits)
    qed
  qed
  have p4: "\<forall>k. map_of u k = None \<longrightarrow> map_of ?c k = map_of default_view k"
  proof (intro allI impI)
    fix k assume n: "map_of u k = None"
    show "map_of ?c k = map_of default_view k"
    proof (cases "k = ''categories''")
      case True
      with vc n default_view_mapping [of k ?d] show ?thesis by simp
    next
      case False
      with vo n show ?thesis by simp
    qed
  qed
  show ?thesis using p1 r(3) p3 p4 by blast
qed

lemma override_ok_run:
  "distinct (map fst override_ok)"
  "map_of override_ok ''skip_files'' = Some (strs [''.bak''])"
  "map_of override_ok ''backup_log'' = None"
  "map_of default_view ''skip_files'' = Some (strs default_skip_files)"
  "map_of default_view ''backup_log'' = Some (JBool True)"
  "map_of (shown (load_config initial_state (Document override_ok))) ''categories'' =
     Some (JObj (map (\<lambda>(c, exts). (c, strs exts)) default_categories @ [(''x'', strs [''.x''])]))"
  by code_simp+

theorem load_config_merge_witness:
  "distinct (map fst override_ok) \<and>
   warning (load_config initial_state (Document override_ok)) = None \<and>
   map_of (shown (load_config initial_state (Document override_ok))) ''skip_files'' =
     Some (strs [''.bak'']) \<and>
   map_of (shown (load_config initial_state (Document override_ok))) ''backup_log'' =
     Some (JBool True) \<and>
   map_of (shown (load_config initial_state (Document override_ok))) ''categories'' =
     Some (JObj (map (\<lambda>(c, exts). (c, strs exts)) default_categories @ [(''x'', strs [''.x''])]))"
proof -
  have h2: "\<forall>k v d0. map_of override_ok k = Some v \<and> map_of default_view k = Some (JObj d0) \<longrightarrow>
           (\<exists>kvs. v = JObj kvs \<and> distinct (map fst kvs))"
    by (auto simp: default_view_mapping override_ok_def)
  note t = load_config_merge [OF override_ok_run(1) h2]
  have a: "warning (load_config initial_state (Document override_ok)) = None"
    using t by (rule conjunct2 [THEN conjunct1])
  have b: "map_of (shown (load_config initial_state (Document override_ok))) ''skip_files'' =
             Some (strs [''.bak''])"
    using t [THEN conjunct2, THEN conjunct2, THEN conjunct1, rule_format, OF override_ok_run(2)]
    by (simp add: override_ok_run(4) strs_def)
  have c: "map_of (shown (load_config initial_state (Document override_ok))) ''backup_log'' =
             Some (JBool True)"
    using t [THEN conjunct2, THEN conjunct2, THEN conjunct2, rule_format, OF override_ok_run(3)]
    by (simp add: override_ok_run(5))
  show ?thesis using a b c override_ok_run(1,6) by (intro conjI)
qed

text \<open>
  The claim C8 as the specification words it fails when the default is a mapping and the
  override is not: the value does not replace the default, the update raises, a warning
  is given, and the keys that follow are not merged at all.
\<close>

theorem load_config_merge_counterexample:
  "warning (load_config initial_state
              (Document [(''categories'', JNum 5), (''backup_log'', JBool False)])) = Some TypeError \<and>
   map_of (shown (load_config initial_state
              (Document [(''categories'', JNum 5), (''backup_log'', JBool False)]))) ''categories''
     \<noteq> Some (JNum 5) \<and>
   map_of (shown (load_config initial_state
              (Document [(''categories'', JNum 5), (''backup_log'', JBool False)]))) ''categories''
     = map_of default_view ''categories'' \<and>
   map_of (shown (load_config initial_state
              (Document [(''categories'', JNum 5), (''backup_log'', JBool False)]))) ''backup_log''
     = Some (JBool True)"
  by code_simp

section \<open>What a run leaves alone\<close>

lemma make_dirs_frame:
  "make_dirs fs d cs = (fs', err) \<Longrightarrow>
     denied fs' = denied fs \<and> (\<forall>p. nodes fs p \<noteq> None \<longrightarrow> nodes fs' p = nodes fs p)"
proof (induction cs arbitrary: fs)
  case Nil
  then show ?case by simp
next
  case (Cons c cs)
  show ?case
  proof (cases "os_makedirs fs (os_path_join d c)")
    case (Inl e)
    with Cons.prems show ?thesis by simp
  next
    case (Inr fs1)
    from os_makedirs_cases [OF Inr] have
      f1: "denied fs1 = denied fs \<and> (\<forall>p. nodes fs p \<noteq> None \<longrightarrow> nodes fs1 p = nodes fs p)"
      by auto
    from Cons.prems Inr have "make_dirs fs1 d cs = (fs', err)" by simp
    from Cons.IH [OF this] f1 show ?thesis by auto
  qed
qed

lemma src_inj: "d @ CHR ''/'' # g = d @ CHR ''/'' # h \<longleftrightarrow> g = h"
  by simp

lemma process_file_frame:
  assumes g: "plain g" and cats: "\<forall>c \<in> fst ` set (categories cfg). plain c"
    and src: "nodes fs (desktop_dir e @ CHR ''/'' # g) = Some (File x)"
    and pf: "process_file cfg e fs g = (fs', out)"
    and h: "CHR ''/'' \<notin> set h" "h \<noteq> g" "nodes fs (desktop_dir e @ CHR ''/'' # h) \<noteq> None"
  shows "nodes fs' (desktop_dir e @ CHR ''/'' # h) = nodes fs (desktop_dir e @ CHR ''/'' # h)"
proof -
  let ?p = "desktop_dir e @ CHR ''/'' # h"
  from process_file_effect [OF g cats src pf] obtain fsm where
    fsm: "fsm = fs \<or>
            (nodes fs (desktop_dir e @ CHR ''/'' # others_name) = None \<and>
             fsm = fs\<lparr>nodes := (nodes fs)(desktop_dir e @ CHR ''/'' # others_name \<mapsto> Dir)\<rparr>)"
    and out: "case out of
              Inl err \<Rightarrow>
                fs' = fsm \<or>
                (\<exists>rd. deep (desktop_dir e) rd \<and> denied fs (desktop_dir e @ CHR ''/'' # g) \<and>
                      fs' = fsm\<lparr>nodes := (nodes fsm)(rd \<mapsto> File x)\<rparr>)
            | Inr (line, rec) \<Rightarrow>
                original rec = desktop_dir e @ CHR ''/'' # g \<and>
                deep (desktop_dir e) (new_location rec) \<and>
                (\<exists>rd. deep (desktop_dir e) rd \<and>
                   (\<not> os_path_isdir fs (new_location rec) \<longrightarrow> rd = new_location rec) \<and>
                   \<not> denied fs (desktop_dir e @ CHR ''/'' # g) \<and> \<not> denied fs rd \<and>
                   fs' = fsm\<lparr>nodes := ((nodes fsm)(desktop_dir e @ CHR ''/'' # g := None))
                                          (rd \<mapsto> File x)\<rparr>)"
    by blast
  have m: "nodes fsm ?p = nodes fs ?p" using fsm h(3) by auto
  have nd: "\<not> deep (desktop_dir e) ?p" using h(1) by (rule not_deep_plain)
  show ?thesis
  proof (cases out)
    case (Inl err)
    with out have "fs' = fsm \<or>
        (\<exists>rd. deep (desktop_dir e) rd \<and> fs' = fsm\<lparr>nodes := (nodes fsm)(rd \<mapsto> File x)\<rparr>)"
      by auto
    then show ?thesis
    proof
      assume "fs' = fsm"
      with m show ?thesis by simp
    next
      assume "\<exists>rd. deep (desktop_dir e) rd \<and> fs' = fsm\<lparr>nodes := (nodes fsm)(rd \<mapsto> File x)\<rparr>"
      then obtain rd where
        rd: "deep (desktop_dir e) rd" "fs' = fsm\<lparr>nodes := (nodes fsm)(rd \<mapsto> File x)\<rparr>"
        by blast
      have "?p \<noteq> rd" using rd(1) nd by auto
      then show ?thesis using rd(2) m by simp
    qed
  next
    case (Inr lr)
    obtain line rec where "lr = (line, rec)" by (cases lr)
    with out Inr obtain rd where
      rd: "deep (desktop_dir e) rd"
          "fs' = fsm\<lparr>nodes := ((nodes fsm)(desktop_dir e @ CHR ''/'' # g := None))(rd \<mapsto> File x)\<rparr>"
      by auto
    have "?p \<noteq> rd" using rd(1) nd by auto
    then show ?thesis using rd(2) m h(2) by simp
  qed
qed

lemma organize_step_ops:
  "ops (organize_step cfg e g st) = ops st \<or>
   (\<exists>rec. ops (organize_step cfg e g st) = ops st @ [rec] \<and>
          original rec = os_path_join (desktop_dir e) g)"
proof (cases "process_file cfg e (fs_now st) g")
  case (Pair fs' out)
  show ?thesis
  proof (cases out)
    case (Inl err)
    with Pair show ?thesis by (simp add: organize_step_def)
  next
    case (Inr lr)
    obtain line rec where lr: "lr = (line, rec)" by (cases lr)
    have "original rec = os_path_join (desktop_dir e) g"
      using Pair Inr lr
      by (auto simp: process_file_def Let_def split: option.splits sum.splits prod.splits)
    with Pair Inr lr show ?thesis by (simp add: organize_step_def)
  qed
qed

lemma organize_loop_frame:
  assumes "\<forall>c \<in> fst ` set (categories cfg). plain c"
    and "\<forall>g \<in> set files. plain g" and "distinct files"
    and "\<forall>g \<in> set files. os_path_isfile (fs_now st) (desktop_dir e @ CHR ''/'' # g)"
    and "CHR ''/'' \<notin> set h" and "h \<notin> set files"
    and "nodes (fs_now st) (desktop_dir e @ CHR ''/'' # h) \<noteq> None"
  shows "nodes (fs_now (organize_loop cfg e files st)) (desktop_dir e @ CHR ''/'' # h) =
           nodes (fs_now st) (desktop_dir e @ CHR ''/'' # h)"
  using assms(2-)
proof (induction files arbitrary: st)
  case Nil
  then show ?case by simp
next
  case (Cons g files)
  let ?st = "organize_step cfg e g st"
  obtain fs' out where pf: "process_file cfg e (fs_now st) g = (fs', out)"
    by (cases "process_file cfg e (fs_now st) g")
  have fsn: "fs_now ?st = fs'"
    using pf by (cases out) (auto simp: organize_step_def split: prod.splits)
  have g: "plain g" using Cons.prems(1) by simp
  obtain x where src: "nodes (fs_now st) (desktop_dir e @ CHR ''/'' # g) = Some (File x)"
    using Cons.prems(3)
    by (auto simp: os_path_isfile_def split: option.splits node.splits)
  note fr = process_file_frame [OF g assms(1) src pf]
  have keep: "nodes fs' (desktop_dir e @ CHR ''/'' # h) = nodes (fs_now st) (desktop_dir e @ CHR ''/'' # h)"
    using fr [of h] Cons.prems(4,5,6) by auto
  have files: "\<forall>g' \<in> set files. os_path_isfile fs' (desktop_dir e @ CHR ''/'' # g')"
  proof
    fix g' assume a: "g' \<in> set files"
    then have "CHR ''/'' \<notin> set g'" "g' \<noteq> g"
      using Cons.prems(1,2) by (auto simp: plain_def)
    moreover have "os_path_isfile (fs_now st) (desktop_dir e @ CHR ''/'' # g')"
      using Cons.prems(3) a by simp
    ultimately show "os_path_isfile fs' (desktop_dir e @ CHR ''/'' # g')"
      using fr [of g'] by (auto simp: os_path_isfile_def split: option.splits node.splits)
  qed
  have "nodes (fs_now (organize_loop cfg e files ?st)) (desktop_dir e @ CHR ''/'' # h) =
          nodes (fs_now ?st) (desktop_dir e @ CHR ''/'' # h)"
    using Cons.IH [of ?st] Cons.prems files fsn keep by simp
  then show ?case using fsn keep by simp
qed

lemma organize_loop_ops:
  "\<forall>op \<in> set (ops (organize_loop cfg e files st)).
     op \<in> set (ops st) \<or> original op \<in> os_path_join (desktop_dir e) ` set files"
proof (induction files arbitrary: st)
  case Nil
  then show ?case by simp
next
  case (Cons g files)
  show ?case
    using Cons [of "organize_step cfg e g st"] organize_step_ops [of cfg e g st]
    by auto
qed

lemma desktop_files_facts:
  "set (desktop_files cfg e fs) \<subseteq> set (all_items e) \<and>
   (distinct (all_items e) \<longrightarrow> distinct (desktop_files cfg e fs)) \<and>
   (\<forall>g \<in> set (desktop_files cfg e fs).
      os_path_isfile fs (os_path_join (desktop_dir e) g) \<and> \<not> should_skip_file (str_lower e) g (skip_files cfg))"
  by (auto simp: desktop_files_def Let_def)

lemma organize_files_cases:
  "(\<not> os_path_isdir fs (desktop_dir e) \<and>
      fs_after (organize_files cfg e fs) = fs \<and> recorded (organize_files cfg e fs) = [] \<and>
      \<not> log_saved (organize_files cfg e fs)) \<or>
   (\<exists>fs1 err. make_dirs fs (desktop_dir e) (map fst (categories cfg)) = (fs1, Some err) \<and>
      fs_after (organize_files cfg e fs) = fs1 \<and> recorded (organize_files cfg e fs) = [] \<and>
      \<not> log_saved (organize_files cfg e fs)) \<or>
   (\<exists>fs1 st. os_path_isdir fs (desktop_dir e) \<and>
      make_dirs fs (desktop_dir e) (map fst (categories cfg)) = (fs1, None) \<and>
      st = organize_loop cfg e (desktop_files cfg e fs)
             \<lparr>fs_now = fs1, ops = [], processed = 0, reports = []\<rparr> \<and>
      recorded (organize_files cfg e fs) = ops st \<and>
      ((fs_after (organize_files cfg e fs) = fs_now st \<and> \<not> log_saved (organize_files cfg e fs)) \<or>
       (backup_log cfg \<and> ops st \<noteq> [] \<and> log_saved (organize_files cfg e fs) \<and>
        raised (organize_files cfg e fs) = None \<and>
        write_log (fs_now st) (default_log_path e)
          \<lparr>timestamp = now_iso e, operations = ops st, desktop_path = desktop_dir e\<rparr> =
          Inr (fs_after (organize_files cfg e fs)))))"
proof (cases "os_path_isdir fs (desktop_dir e)")
  case False
  then show ?thesis by (simp add: organize_files_def)
next
  case True
  obtain fs1 err where m: "make_dirs fs (desktop_dir e) (map fst (categories cfg)) = (fs1, err)"
    by (cases "make_dirs fs (desktop_dir e) (map fst (categories cfg))")
  show ?thesis
  proof (cases err)
    case (Some x)
    with True m show ?thesis by (simp add: organize_files_def Let_def)
  next
    case None
    let ?st = "organize_loop cfg e (desktop_files cfg e fs)
                 \<lparr>fs_now = fs1, ops = [], processed = 0, reports = []\<rparr>"
    show ?thesis
    proof (cases "backup_log cfg \<and> ops ?st \<noteq> []")
      case False
      with True m None show ?thesis by (auto simp: organize_files_def Let_def)
    next
      case w: True
      show ?thesis
      proof (cases "write_log (fs_now ?st) (default_log_path e)
                      \<lparr>timestamp = now_iso e, operations = ops ?st, desktop_path = desktop_dir e\<rparr>")
        case (Inl x)
        with True m None w show ?thesis by (simp add: organize_files_def Let_def)
      next
        case (Inr fs2)
        with True m None w show ?thesis by (simp add: organize_files_def Let_def)
      qed
    qed
  qed
qed

lemma write_log_frame:
  "write_log fs p l = Inr fs' \<Longrightarrow>
     denied fs' = denied fs \<and> \<not> denied fs p \<and>
     nodes fs' = (nodes fs)(p \<mapsto> File (Json (log_json l)))"
  by (auto simp: write_log_def split: option.splits node.splits if_splits)

text \<open>
  C9, as the code has it. Provided the names of the categories are plain names (names of
  folders in the desktop), and with the names \<open>os.listdir\<close> returns (plain and
  distinct), a listed regular file that the skip filter matches is never the source of a
  move: after the run a regular file is still at its path, with the content it had unless
  the file is the log itself, which the run overwrites when it saves its log; and no
  record of the run has that path as its original.
\<close>

theorem skipped_files_stay:
  assumes cats: "\<forall>c \<in> fst ` set (categories cfg). plain c"
    and names: "\<forall>g \<in> set (all_items e). plain g" and dist: "distinct (all_items e)"
    and f: "f \<in> set (all_items e)"
    and skip: "should_skip_file (str_lower e) f (skip_files cfg)"
    and isf: "os_path_isfile fs (os_path_join (desktop_dir e) f)"
  shows "(\<forall>op \<in> set (recorded (organize_files cfg e fs)).
            original op \<noteq> os_path_join (desktop_dir e) f) \<and>
         os_path_isfile (fs_after (organize_files cfg e fs)) (os_path_join (desktop_dir e) f) \<and>
         (f \<noteq> log_name \<longrightarrow>
            nodes (fs_after (organize_files cfg e fs)) (os_path_join (desktop_dir e) f) =
              nodes fs (os_path_join (desktop_dir e) f))"
proof -
  let ?d = "desktop_dir e"
  let ?r = "organize_files cfg e fs"
  let ?files = "desktop_files cfg e fs"
  have pf: "plain f" using names f by blast
  have jf: "os_path_join ?d f = ?d @ CHR ''/'' # f"
    by (rule join_plain [OF rooted_desktop pf])
  have ex: "nodes fs (?d @ CHR ''/'' # f) \<noteq> None"
    using isf jf by (auto simp: os_path_isfile_def split: option.splits)
  note df = desktop_files_facts [of cfg e fs]
  have fnot: "f \<notin> set ?files" using df skip by blast
  have pl: "\<forall>g \<in> set ?files. plain g" using df names by blast
  have di: "distinct ?files" using df dist by blast
  have jg: "\<And>g. g \<in> set ?files \<Longrightarrow> os_path_join ?d g = ?d @ CHR ''/'' # g"
    using pl join_plain [OF rooted_desktop] by blast
  have origs: "\<And>g. g \<in> set ?files \<Longrightarrow> os_path_join ?d g \<noteq> os_path_join ?d f"
    using jg jf fnot by auto
  from organize_files_cases [of fs e cfg]
  consider
    (nodir) "fs_after ?r = fs" "recorded ?r = []"
  | (nomk) fs1 err where "make_dirs fs ?d (map fst (categories cfg)) = (fs1, Some err)"
      "fs_after ?r = fs1" "recorded ?r = []"
  | (run) fs1 st where "make_dirs fs ?d (map fst (categories cfg)) = (fs1, None)"
      "st = organize_loop cfg e ?files \<lparr>fs_now = fs1, ops = [], processed = 0, reports = []\<rparr>"
      "recorded ?r = ops st"
      "fs_after ?r = fs_now st \<or>
       write_log (fs_now st) (default_log_path e)
          \<lparr>timestamp = now_iso e, operations = ops st, desktop_path = ?d\<rparr> = Inr (fs_after ?r)"
    by blast
  then show ?thesis
  proof cases
    case nodir
    then show ?thesis using isf by simp
  next
    case nomk
    have "nodes fs1 (?d @ CHR ''/'' # f) = nodes fs (?d @ CHR ''/'' # f)"
      using make_dirs_frame [OF nomk(1)] ex by blast
    then show ?thesis using nomk isf jf by (simp add: os_path_isfile_def)
  next
    case run
    note mf = make_dirs_frame [OF run(1)]
    have k1: "nodes fs1 (?d @ CHR ''/'' # f) = nodes fs (?d @ CHR ''/'' # f)"
      using mf ex by blast
    have files1: "\<forall>g \<in> set ?files. os_path_isfile fs1 (?d @ CHR ''/'' # g)"
    proof
      fix g assume g: "g \<in> set ?files"
      then have "os_path_isfile fs (?d @ CHR ''/'' # g)" using df jg by auto
      then show "os_path_isfile fs1 (?d @ CHR ''/'' # g)"
        using mf by (auto simp: os_path_isfile_def split: option.splits node.splits)
    qed
    have k2: "nodes (fs_now st) (?d @ CHR ''/'' # f) = nodes fs1 (?d @ CHR ''/'' # f)"
      unfolding run(2)
      using organize_loop_frame [OF cats pl di, of "\<lparr>fs_now = fs1, ops = [], processed = 0, reports = []\<rparr>" e f]
        files1 pf fnot k1 ex
      by (simp add: plain_def)
    have rec: "\<forall>op \<in> set (recorded ?r). original op \<noteq> os_path_join ?d f"
      using organize_loop_ops [of cfg e ?files "\<lparr>fs_now = fs1, ops = [], processed = 0, reports = []\<rparr>"]
        run(2,3) origs
      by auto
    have after: "nodes (fs_after ?r) (?d @ CHR ''/'' # f) = nodes fs (?d @ CHR ''/'' # f) \<or>
                 (f = log_name \<and> os_path_isfile (fs_after ?r) (?d @ CHR ''/'' # f))"
    proof (cases "fs_after ?r = fs_now st")
      case True
      then show ?thesis using k1 k2 by simp
    next
      case False
      with run(4) have w: "write_log (fs_now st) (default_log_path e)
          \<lparr>timestamp = now_iso e, operations = ops st, desktop_path = ?d\<rparr> = Inr (fs_after ?r)"
        by blast
      have lp: "default_log_path e = ?d @ CHR ''/'' # log_name"
        by (simp add: default_log_path_def join_plain [OF rooted_desktop plain_log_name])
      show ?thesis
      proof (cases "f = log_name")
        case True
        then show ?thesis
          using write_log_frame [OF w] lp by (simp add: os_path_isfile_def)
      next
        case False
        then show ?thesis
          using write_log_frame [OF w] lp k1 k2 by simp
      qed
    qed
    show ?thesis using rec after isf jf by (auto simp: os_path_isfile_def)
  qed
qed

lemma skip_run:
  "\<forall>c \<in> fst ` set (categories default_config). plain c"
  "\<forall>g \<in> set (all_items env_skip). plain g"
  "distinct (all_items env_skip)"
  "''~$a.docx'' \<in> set (all_items env_skip)"
  "should_skip_file (str_lower env_skip) ''~$a.docx'' (skip_files default_config)"
  "os_path_isfile fs_skip (os_path_join (desktop_dir env_skip) ''~$a.docx'')"
  "os_path_join (desktop_dir env_skip) ''~$a.docx'' = ''/h/Desktop/~$a.docx''"
  "recorded (organize_files default_config env_skip fs_skip) =
     [\<lparr>original = ''/h/Desktop/a.jpg'', new_location = ''/h/Desktop/'' @ cat_pictures @ ''/a.jpg''\<rparr>]"
  "nodes fs_skip ''/h/Desktop/~$a.docx'' = Some (File (Bytes ''lock''))"
  "''~$a.docx'' \<noteq> log_name"
  by code_simp+

theorem skipped_files_stay_witness:
  "should_skip_file (str_lower env_skip) ''~$a.docx'' (skip_files default_config) \<and>
   recorded (organize_files default_config env_skip fs_skip) =
     [\<lparr>original = ''/h/Desktop/a.jpg'', new_location = ''/h/Desktop/'' @ cat_pictures @ ''/a.jpg''\<rparr>] \<and>
   os_path_isfile (fs_after (organize_files default_config env_skip fs_skip)) ''/h/Desktop/~$a.docx'' \<and>
   nodes (fs_after (organize_files default_config env_skip fs_skip)) ''/h/Desktop/~$a.docx'' =
     Some (File (Bytes ''lock''))"
proof -
  note t = skipped_files_stay [OF skip_run(1,2,3,4,5,6), unfolded skip_run(7)]
  have a: "os_path_isfile (fs_after (organize_files default_config env_skip fs_skip))
             ''/h/Desktop/~$a.docx''"
    using t by (rule conjunct2 [THEN conjunct1])
  have b: "nodes (fs_after (organize_files default_config env_skip fs_skip)) ''/h/Desktop/~$a.docx'' =
             Some (File (Bytes ''lock''))"
    using t [THEN conjunct2, THEN conjunct2, THEN mp, OF skip_run(10)] skip_run(9) by simp
  show ?thesis using a b skip_run(5,8) by (intro conjI)
qed

text \<open>
  The claim C9 as the specification words it fails when a category has the empty name:
  its folder is the desktop itself, the destination of \<open>a.jpg\<close> there is \<open>a.jpg\<close> itself,
  which exists, so the file is renamed with the time, on the desktop, onto a file that the
  skip filter matches. That file is not at its path any more: the picture is.
\<close>

theorem skipped_files_stay_counterexample:
  "should_skip_file (str_lower env_nameless) ''a_120000.jpg'' (skip_files cfg_nameless) \<and>
   \<not> should_skip_file (str_lower env_nameless) ''a.jpg'' (skip_files cfg_nameless) \<and>
   os_path_join (desktop_dir env_nameless) ''a_120000.jpg'' = ''/h/Desktop/a_120000.jpg'' \<and>
   nodes fs_nameless ''/h/Desktop/a_120000.jpg'' = Some (File (Bytes ''kept'')) \<and>
   raised (organize_files cfg_nameless env_nameless fs_nameless) = None \<and>
   lines (organize_files cfg_nameless env_nameless fs_nameless) = [Moved ''a.jpg'' []] \<and>
   recorded (organize_files cfg_nameless env_nameless fs_nameless) =
     [\<lparr>original = ''/h/Desktop/a.jpg'', new_location = ''/h/Desktop/a_120000.jpg''\<rparr>] \<and>
   nodes (fs_after (organize_files cfg_nameless env_nameless fs_nameless))
     ''/h/Desktop/a_120000.jpg'' = Some (File (Bytes ''new''))"
  by code_simp

section \<open>Undoing the records of a log\<close>

lemma restore_step_undo:
  assumes "d \<noteq> []" "nodes fs d = Some Dir" "nodes fs (new_location op) = Some (File x)"
    "nodes fs (original op) = None" "dirname (original op) = d"
    "\<not> denied fs (new_location op)" "\<not> denied fs (original op)"
  shows "restore_step fs op =
           (fs\<lparr>nodes := ((nodes fs)(new_location op := None))(original op \<mapsto> File x)\<rparr>,
            Restored (basename (original op)))"
proof -
  have m: "os_makedirs fs (dirname (original op)) = Inr fs"
    using assms(1,2,5) by (simp add: os_makedirs_def)
  have ne: "new_location op \<noteq> original op" using assms(3,4) by auto
  have s: "shutil_move fs (new_location op) (original op) =
             (fs\<lparr>nodes := ((nodes fs)(new_location op := None))(original op \<mapsto> File x)\<rparr>, None)"
    using assms(3,4,6,7) ne by (simp add: shutil_move_def move_entry_def os_path_isdir_def)
  show ?thesis
    using m s assms(3) by (simp add: restore_step_def Let_def os_path_exists_def)
qed

lemma undoable_Cons:
  assumes "undoable d fs (op # rs)"
  shows "d \<noteq> []" "nodes fs d = Some Dir"
    "os_path_isfile fs (new_location op)" "nodes fs (original op) = None"
    "dirname (original op) = d" "\<not> denied fs (new_location op)" "\<not> denied fs (original op)"
    "new_location op \<noteq> original op"
    "\<forall>a \<in> set rs. new_location a \<noteq> new_location op \<and> new_location a \<noteq> original op \<and>
                   original a \<noteq> original op \<and> original a \<noteq> new_location op"
    "undoable d fs rs"
proof -
  have u: "d \<noteq> []" "nodes fs d = Some Dir"
    "distinct (map new_location (op # rs))" "distinct (map original (op # rs))"
    "\<forall>a \<in> set (op # rs). \<forall>b \<in> set (op # rs). new_location a \<noteq> original b"
    "\<forall>a \<in> set (op # rs).
        os_path_isfile fs (new_location a) \<and> nodes fs (original a) = None \<and>
        dirname (original a) = d \<and>
        \<not> denied fs (new_location a) \<and> \<not> denied fs (original a)"
    using assms unfolding undoable_def by blast+
  show "d \<noteq> []" "nodes fs d = Some Dir" by (rule u(1), rule u(2))
  show "os_path_isfile fs (new_location op)" "nodes fs (original op) = None"
    "dirname (original op) = d" "\<not> denied fs (new_location op)" "\<not> denied fs (original op)"
    using u(6) by simp_all
  show "new_location op \<noteq> original op" using u(5) by simp
  have n: "new_location op \<notin> new_location ` set rs" "original op \<notin> original ` set rs"
    using u(3,4) by simp_all
  show "\<forall>a \<in> set rs. new_location a \<noteq> new_location op \<and> new_location a \<noteq> original op \<and>
                   original a \<noteq> original op \<and> original a \<noteq> new_location op"
  proof (intro ballI conjI)
    fix a assume a: "a \<in> set rs"
    show "new_location a \<noteq> new_location op" using n(1) a by (metis imageI)
    show "original a \<noteq> original op" using n(2) a by (metis imageI)
    show "new_location a \<noteq> original op" using u(5) a by simp
    show "original a \<noteq> new_location op" using u(5) a by (metis list.set_intros)
  qed
  show "undoable d fs rs"
    unfolding undoable_def using u by simp
qed

lemma undoable_after_step:
  assumes "undoable d fs (op # rs)" "nodes fs (new_location op) = Some (File x)"
  shows "undoable d (fs\<lparr>nodes := ((nodes fs)(new_location op := None))(original op \<mapsto> File x)\<rparr>) rs"
proof -
  note c = undoable_Cons [OF assms(1)]
  let ?fs2 = "fs\<lparr>nodes := ((nodes fs)(new_location op := None))(original op \<mapsto> File x)\<rparr>"
  have dn: "d \<noteq> new_location op" "d \<noteq> original op"
    using c(2,4) assms(2) by auto
  have same: "\<And>op'. op' \<in> set rs \<Longrightarrow>
          nodes ?fs2 (new_location op') = nodes fs (new_location op') \<and>
          nodes ?fs2 (original op') = nodes fs (original op')"
    using c(9) by simp
  have u: "undoable d fs rs" by (rule c(10))
  show ?thesis
    unfolding undoable_def
  proof (intro conjI ballI)
    show "d \<noteq> []" by (rule c(1))
    show "nodes ?fs2 d = Some Dir" using c(2) dn by simp
    show "distinct (map new_location rs)" "distinct (map original rs)"
      using u by (simp_all add: undoable_def)
  next
    fix a b assume "a \<in> set rs" "b \<in> set rs"
    then show "new_location a \<noteq> original b" using u by (simp add: undoable_def)
  next
    fix a assume a: "a \<in> set rs"
    then have f: "os_path_isfile fs (new_location a)" "nodes fs (original a) = None"
        "dirname (original a) = d" "\<not> denied fs (new_location a)" "\<not> denied fs (original a)"
      using u by (simp_all add: undoable_def)
    show "os_path_isfile ?fs2 (new_location a)"
      using f(1) same [OF a] by (simp add: os_path_isfile_def)
    show "nodes ?fs2 (original a) = None" using f(2) same [OF a] by simp
    show "dirname (original a) = d" by (rule f(3))
    show "\<not> denied ?fs2 (new_location a)" using f(4) by simp
    show "\<not> denied ?fs2 (original a)" using f(5) by simp
  qed
qed

lemma restore_loop_undo:
  assumes "undoable d (rfs_now st) rs"
  shows "printed (restore_loop rs st) =
           printed st @ map (\<lambda>op. Restored (basename (original op))) rs \<and>
         success_count (restore_loop rs st) = success_count st + length rs \<and>
         (\<forall>op \<in> set rs.
            nodes (rfs_now (restore_loop rs st)) (original op) = nodes (rfs_now st) (new_location op) \<and>
            nodes (rfs_now (restore_loop rs st)) (new_location op) = None) \<and>
         (\<forall>p. p \<notin> original ` set rs \<and> p \<notin> new_location ` set rs \<longrightarrow>
            nodes (rfs_now (restore_loop rs st)) p = nodes (rfs_now st) p)"
  using assms
proof (induction rs arbitrary: st)
  case Nil
  then show ?case by simp
next
  case (Cons op rs)
  let ?fs = "rfs_now st"
  note c = undoable_Cons [OF Cons.prems]
  obtain x where x: "nodes ?fs (new_location op) = Some (File x)"
    using c(3) by (auto simp: os_path_isfile_def split: option.splits node.splits)
  let ?fs2 = "?fs\<lparr>nodes := ((nodes ?fs)(new_location op := None))(original op \<mapsto> File x)\<rparr>"
  have step: "restore_step ?fs op = (?fs2, Restored (basename (original op)))"
    by (rule restore_step_undo [OF c(1) c(2) x c(4) c(5) c(6) c(7)])
  let ?st = "restore_one op st"
  have st2: "rfs_now ?st = ?fs2" "success_count ?st = success_count st + 1"
            "printed ?st = printed st @ [Restored (basename (original op))]"
    using step by (simp_all add: restore_one_def)
  have u2: "undoable d (rfs_now ?st) rs"
    unfolding st2 by (rule undoable_after_step [OF Cons.prems x])
  note ih = Cons.IH [OF u2]
  let ?end = "rfs_now (restore_loop rs ?st)"
  have keep: "\<And>p. p \<notin> original ` set rs \<Longrightarrow> p \<notin> new_location ` set rs \<Longrightarrow>
                nodes ?end p = nodes ?fs2 p"
    using ih st2(1) by simp
  have self: "original op \<notin> original ` set rs" "original op \<notin> new_location ` set rs"
    "new_location op \<notin> original ` set rs" "new_location op \<notin> new_location ` set rs"
    using c(9) by (metis imageE)+
  have o1: "nodes ?end (original op) = nodes ?fs (new_location op)"
    using keep [OF self(1) self(2)] x by simp
  have o2: "nodes ?end (new_location op) = None"
    using keep [OF self(3) self(4)] c(8) by simp
  have rest: "\<And>op'. op' \<in> set rs \<Longrightarrow>
            nodes ?end (original op') = nodes ?fs (new_location op') \<and>
            nodes ?end (new_location op') = None"
  proof -
    fix op' assume a: "op' \<in> set rs"
    have "new_location op' \<noteq> new_location op" "new_location op' \<noteq> original op"
      using a c(9) by simp_all
    then have "nodes ?fs2 (new_location op') = nodes ?fs (new_location op')" by simp
    then show "nodes ?end (original op') = nodes ?fs (new_location op') \<and>
            nodes ?end (new_location op') = None"
      using ih a st2(1) by simp
  qed
  have other: "\<And>p. p \<notin> original ` set (op # rs) \<Longrightarrow> p \<notin> new_location ` set (op # rs) \<Longrightarrow>
            nodes ?end p = nodes ?fs p"
  proof -
    fix p assume a: "p \<notin> original ` set (op # rs)" "p \<notin> new_location ` set (op # rs)"
    then have "nodes ?end p = nodes ?fs2 p" using keep by simp
    moreover have "p \<noteq> original op" "p \<noteq> new_location op" using a by auto
    ultimately show "nodes ?end p = nodes ?fs p" by simp
  qed
  have p1: "printed (restore_loop (op # rs) st) =
           printed st @ map (\<lambda>op. Restored (basename (original op))) (op # rs)"
    using ih st2(3) by simp
  have p2: "success_count (restore_loop (op # rs) st) = success_count st + length (op # rs)"
    using ih st2(2) by simp
  have e: "rfs_now (restore_loop (op # rs) st) = ?end" by simp
  show ?case
    unfolding e
  proof (intro conjI ballI allI impI)
    show "printed (restore_loop (op # rs) st) =
           printed st @ map (\<lambda>op. Restored (basename (original op))) (op # rs)" by (rule p1)
    show "success_count (restore_loop (op # rs) st) = success_count st + length (op # rs)"
      by (rule p2)
  next
    fix a assume "a \<in> set (op # rs)"
    then have "a = op \<or> a \<in> set rs" by simp
    then show "nodes ?end (original a) = nodes ?fs (new_location a)"
      and "nodes ?end (new_location a) = None"
      using o1 o2 rest by blast+
  next
    fix p assume "p \<notin> original ` set (op # rs) \<and> p \<notin> new_location ` set (op # rs)"
    then show "nodes ?end p = nodes ?fs p" using other by blast
  qed
qed

section \<open>A run that can be undone\<close>

lemma deep_not_desktop: "deep d p \<Longrightarrow> p \<noteq> d"
  by (auto simp: deep_def)

lemma deep_not_child: "deep d p \<Longrightarrow> CHR ''/'' \<notin> set g \<Longrightarrow> p \<noteq> d @ CHR ''/'' # g"
  using not_deep_plain by blast

lemma plain_no_slash: "plain g \<Longrightarrow> CHR ''/'' \<notin> set g"
  by (simp add: plain_def)

lemma organize_step_inv:
  assumes cats: "\<forall>c \<in> fst ` set (categories cfg). plain c"
    and bl: "backup_log cfg"
    and free: "\<forall>p. \<not> denied fs1 p"
    and inv: "run_inv e fs1 (g # todo) st"
    and g: "plain g" and gt: "g \<notin> set todo"
    and isf: "os_path_isfile fs1 (desktop_dir e @ CHR ''/'' # g)"
    and co: "\<forall>op \<in> set (ops st). original op \<noteq> desktop_dir e @ CHR ''/'' # others_name"
    and cl: "\<forall>rec. ops (organize_step cfg e g st) = ops st @ [rec] \<longrightarrow>
               new_location rec \<notin> new_location ` set (ops st) \<and>
               (deep (desktop_dir e) (new_location rec) \<longrightarrow>
                  \<not> os_path_isdir fs1 (new_location rec))"
  shows "run_inv e fs1 todo (organize_step cfg e g st)"
proof -
  let ?d = "desktop_dir e"
  let ?src = "?d @ CHR ''/'' # g"
  let ?o = "?d @ CHR ''/'' # others_name"
  let ?fs = "fs_now st"
  have i1: "denied ?fs = denied fs1"
    and i2: "nodes ?fs ?d = nodes fs1 ?d"
    and i3: "\<And>h. CHR ''/'' \<notin> set h \<Longrightarrow> ?d @ CHR ''/'' # h \<notin> original ` set (ops st) \<Longrightarrow>
                nodes fs1 (?d @ CHR ''/'' # h) \<noteq> None \<Longrightarrow>
                nodes ?fs (?d @ CHR ''/'' # h) = nodes fs1 (?d @ CHR ''/'' # h)"
    and i4: "\<And>p. deep ?d p \<Longrightarrow> os_path_isdir ?fs p \<Longrightarrow> os_path_isdir fs1 p"
    and i5: "distinct (map original (ops st))"
    and i6: "\<And>op. op \<in> set (ops st) \<Longrightarrow>
               (\<exists>h. plain h \<and> h \<notin> set (g # todo) \<and> original op = ?d @ CHR ''/'' # h) \<and>
               os_path_isfile fs1 (original op) \<and>
               nodes ?fs (new_location op) = nodes fs1 (original op) \<and>
               nodes ?fs (original op) = None \<and>
               deep ?d (new_location op)"
    using inv unfolding run_inv_def by blast+
  have gs: "CHR ''/'' \<notin> set g" using g by (rule plain_no_slash)
  have unrec: "?src \<notin> original ` set (ops st)"
  proof
    assume "?src \<in> original ` set (ops st)"
    then obtain op where op: "op \<in> set (ops st)" "original op = ?src" by auto
    from i6 [OF op(1)] obtain h where "h \<notin> set (g # todo)" "original op = ?d @ CHR ''/'' # h"
      by blast
    with op(2) show False by simp
  qed
  obtain x where x1: "nodes fs1 ?src = Some (File x)"
    using isf by (auto simp: os_path_isfile_def split: option.splits node.splits)
  have src: "nodes ?fs ?src = Some (File x)"
    using i3 [OF gs unrec] x1 by simp
  obtain fs' out where pf: "process_file cfg e ?fs g = (fs', out)"
    by (cases "process_file cfg e ?fs g")
  from process_file_effect [OF g cats src pf] obtain fsm where
    fsm: "fsm = ?fs \<or> (nodes ?fs ?o = None \<and> fsm = ?fs\<lparr>nodes := (nodes ?fs)(?o \<mapsto> Dir)\<rparr>)"
    and out: "case out of
              Inl err \<Rightarrow>
                fs' = fsm \<or>
                (\<exists>rd. deep ?d rd \<and> denied ?fs ?src \<and>
                      fs' = fsm\<lparr>nodes := (nodes fsm)(rd \<mapsto> File x)\<rparr>)
            | Inr (line, rec) \<Rightarrow>
                original rec = ?src \<and>
                deep ?d (new_location rec) \<and>
                (\<exists>rd. deep ?d rd \<and>
                   (\<not> os_path_isdir ?fs (new_location rec) \<longrightarrow> rd = new_location rec) \<and>
                   \<not> denied ?fs ?src \<and> \<not> denied ?fs rd \<and>
                   fs' = fsm\<lparr>nodes := ((nodes fsm)(?src := None))(rd \<mapsto> File x)\<rparr>)"
    by blast
  have os: "CHR ''/'' \<notin> set others_name" using plain_others by (rule plain_no_slash)
  have ond: "\<not> deep ?d ?o" using os by (rule not_deep_plain)
  text \<open>The file system between the creation of the fallback folder and the move.\<close>
  have m1: "denied fsm = denied fs1" using fsm i1 by auto
  have m2: "nodes fsm ?d = nodes fs1 ?d" using fsm i2 by auto
  have m3: "\<And>h. CHR ''/'' \<notin> set h \<Longrightarrow> ?d @ CHR ''/'' # h \<notin> original ` set (ops st) \<Longrightarrow>
                nodes fs1 (?d @ CHR ''/'' # h) \<noteq> None \<Longrightarrow>
                nodes fsm (?d @ CHR ''/'' # h) = nodes fs1 (?d @ CHR ''/'' # h)"
  proof -
    fix h assume h: "CHR ''/'' \<notin> set h" "?d @ CHR ''/'' # h \<notin> original ` set (ops st)"
      "nodes fs1 (?d @ CHR ''/'' # h) \<noteq> None"
    note a = i3 [OF h]
    from fsm show "nodes fsm (?d @ CHR ''/'' # h) = nodes fs1 (?d @ CHR ''/'' # h)"
    proof
      assume "fsm = ?fs" with a show ?thesis by simp
    next
      assume b: "nodes ?fs ?o = None \<and> fsm = ?fs\<lparr>nodes := (nodes ?fs)(?o \<mapsto> Dir)\<rparr>"
      then have "?d @ CHR ''/'' # h \<noteq> ?o" using a h(3) by auto
      with a b show ?thesis by simp
    qed
  qed
  have m4: "\<And>p. deep ?d p \<Longrightarrow> nodes fsm p = nodes ?fs p"
  proof -
    fix p assume p: "deep ?d p"
    then have "p \<noteq> ?o" using ond by auto
    with fsm show "nodes fsm p = nodes ?fs p" by auto
  qed
  have m6: "\<And>op. op \<in> set (ops st) \<Longrightarrow> nodes fsm (original op) = None"
  proof -
    fix op assume op: "op \<in> set (ops st)"
    then have "original op \<noteq> ?o" using co by blast
    moreover have "nodes ?fs (original op) = None" using i6 [OF op] by blast
    ultimately show "nodes fsm (original op) = None" using fsm by auto
  qed
  show ?thesis
  proof (cases out)
    case (Inl err)
    have nd: "\<not> denied ?fs ?src" using free i1 by simp
    with out Inl have f: "fs' = fsm" by auto
    have st': "organize_step cfg e g st = st\<lparr>fs_now := fsm, reports := reports st @ [failure_report g err]\<rparr>"
      using pf Inl f by (simp add: organize_step_def)
    show ?thesis
      unfolding run_inv_def st'
    proof (intro conjI allI impI ballI)
      show "denied (fs_now (st\<lparr>fs_now := fsm, reports := reports st @ [failure_report g err]\<rparr>)) = denied fs1"
        using m1 by simp
      show "nodes (fs_now (st\<lparr>fs_now := fsm, reports := reports st @ [failure_report g err]\<rparr>)) ?d = nodes fs1 ?d"
        using m2 by simp
      show "distinct (map original (ops (st\<lparr>fs_now := fsm, reports := reports st @ [failure_report g err]\<rparr>)))"
        using i5 by simp
    next
      fix h assume "CHR ''/'' \<notin> set h \<and>
         ?d @ CHR ''/'' # h \<notin> original ` set (ops (st\<lparr>fs_now := fsm, reports := reports st @ [failure_report g err]\<rparr>)) \<and>
         nodes fs1 (?d @ CHR ''/'' # h) \<noteq> None"
      then show "nodes (fs_now (st\<lparr>fs_now := fsm, reports := reports st @ [failure_report g err]\<rparr>)) (?d @ CHR ''/'' # h) =
                 nodes fs1 (?d @ CHR ''/'' # h)"
        using m3 [of h] by simp
    next
      fix p assume "deep ?d p \<and> os_path_isdir (fs_now (st\<lparr>fs_now := fsm, reports := reports st @ [failure_report g err]\<rparr>)) p"
      then show "os_path_isdir fs1 p"
        using m4 [of p] i4 [of p] by (simp add: os_path_isdir_def)
    next
      fix op assume "op \<in> set (ops (st\<lparr>fs_now := fsm, reports := reports st @ [failure_report g err]\<rparr>))"
      then have op: "op \<in> set (ops st)" by simp
      note a = i6 [OF op]
      show "\<exists>h. plain h \<and> h \<notin> set todo \<and> original op = ?d @ CHR ''/'' # h"
        using a by auto
      show "os_path_isfile fs1 (original op)" using a by blast
      show "nodes (fs_now (st\<lparr>fs_now := fsm, reports := reports st @ [failure_report g err]\<rparr>)) (new_location op) =
            nodes fs1 (original op)"
        using a m4 [of "new_location op"] by simp
      show "nodes (fs_now (st\<lparr>fs_now := fsm, reports := reports st @ [failure_report g err]\<rparr>)) (original op) = None"
        using m6 [OF op] by simp
      show "deep ?d (new_location op)" using a by blast
    qed
  next
    case (Inr lr)
    obtain line rec where lr: "lr = (line, rec)" by (cases lr)
    have st': "organize_step cfg e g st =
                 st\<lparr>fs_now := fs', ops := ops st @ [rec], processed := processed st + 1,
                    reports := reports st @ [line]\<rparr>"
      using pf Inr lr bl by (simp add: organize_step_def)
    from out Inr lr obtain rd where
      r1: "original rec = ?src" and r2: "deep ?d (new_location rec)" and r3: "deep ?d rd"
      and r4: "\<not> os_path_isdir ?fs (new_location rec) \<longrightarrow> rd = new_location rec"
      and r5: "fs' = fsm\<lparr>nodes := ((nodes fsm)(?src := None))(rd \<mapsto> File x)\<rparr>"
      by auto
    have c1: "new_location rec \<notin> new_location ` set (ops st)"
      and c2: "\<not> os_path_isdir fs1 (new_location rec)"
      using cl st' r2 by simp_all
    have "\<not> os_path_isdir ?fs (new_location rec)" using c2 i4 [OF r2] by blast
    with r4 have rd: "rd = new_location rec" by simp
    have rdsrc: "rd \<noteq> ?src" using r3 gs by (rule deep_not_child)
    let ?st = "st\<lparr>fs_now := fs', ops := ops st @ [rec], processed := processed st + 1,
                    reports := reports st @ [line]\<rparr>"
    have n': "\<And>p. p \<noteq> ?src \<Longrightarrow> p \<noteq> rd \<Longrightarrow> nodes fs' p = nodes fsm p"
      using r5 by simp
    show ?thesis
      unfolding run_inv_def st'
    proof (intro conjI allI impI ballI)
      show "denied (fs_now ?st) = denied fs1" using m1 r5 by simp
      show "nodes (fs_now ?st) ?d = nodes fs1 ?d"
        using m2 n' [of ?d] deep_not_desktop [OF r3] by simp
      show "distinct (map original (ops ?st))"
        using i5 unrec r1 by simp
    next
      fix h assume a: "CHR ''/'' \<notin> set h \<and>
         ?d @ CHR ''/'' # h \<notin> original ` set (ops ?st) \<and>
         nodes fs1 (?d @ CHR ''/'' # h) \<noteq> None"
      then have "?d @ CHR ''/'' # h \<noteq> ?src" using r1 by auto
      moreover have "?d @ CHR ''/'' # h \<noteq> rd" using r3 a deep_not_child by blast
      moreover have "nodes fsm (?d @ CHR ''/'' # h) = nodes fs1 (?d @ CHR ''/'' # h)"
        using m3 [of h] a by simp
      ultimately show "nodes (fs_now ?st) (?d @ CHR ''/'' # h) = nodes fs1 (?d @ CHR ''/'' # h)"
        using n' by simp
    next
      fix p assume a: "deep ?d p \<and> os_path_isdir (fs_now ?st) p"
      then have "p \<noteq> rd \<and> p \<noteq> ?src"
        using r5 not_deep_plain [OF gs, of ?d] by (auto simp: os_path_isdir_def)
      then have "nodes fs' p = nodes ?fs p" using n' [of p] m4 [of p] a by simp
      then show "os_path_isdir fs1 p" using a i4 [of p] by (simp add: os_path_isdir_def)
    next
      fix op assume "op \<in> set (ops ?st)"
      then have op: "op = rec \<or> op \<in> set (ops st)" by auto
      show "\<exists>h. plain h \<and> h \<notin> set todo \<and> original op = ?d @ CHR ''/'' # h"
        using op
      proof
        assume "op = rec"
        then show ?thesis using r1 g gt by blast
      next
        assume "op \<in> set (ops st)"
        from i6 [OF this] show ?thesis by auto
      qed
      show "os_path_isfile fs1 (original op)"
        using op i6 [of op] r1 isf by auto
      show "deep ?d (new_location op)"
        using op i6 [of op] r2 by auto
      show "nodes (fs_now ?st) (new_location op) = nodes fs1 (original op)"
        using op
      proof
        assume "op = rec"
        then show ?thesis using r1 r5 rd x1 by simp
      next
        assume o: "op \<in> set (ops st)"
        note a = i6 [OF o]
        have "new_location op \<noteq> rd" using c1 o rd by (metis imageI)
        moreover have "new_location op \<noteq> ?src" using a gs deep_not_child by blast
        ultimately have "nodes fs' (new_location op) = nodes ?fs (new_location op)"
          using n' [of "new_location op"] m4 [of "new_location op"] a by simp
        then show ?thesis using a by simp
      qed
      show "nodes (fs_now ?st) (original op) = None"
        using op
      proof
        assume "op = rec"
        then show ?thesis using r1 r5 rdsrc by simp
      next
        assume o: "op \<in> set (ops st)"
        from i6 [OF o] obtain h where h: "plain h" "original op = ?d @ CHR ''/'' # h" by blast
        have "original op \<noteq> rd" using r3 h plain_no_slash deep_not_child by metis
        moreover have "nodes fsm (original op) = None" by (rule m6 [OF o])
        ultimately show ?thesis using r5 by simp
      qed
    qed
  qed
qed

lemma organize_loop_prefix: "prefix (ops st) (ops (organize_loop cfg e files st))"
proof (induction files arbitrary: st)
  case Nil
  then show ?case by simp
next
  case (Cons g files)
  have "prefix (ops st) (ops (organize_step cfg e g st))"
    using organize_step_ops [of cfg e g st] by auto
  then show ?case using Cons [of "organize_step cfg e g st"] by (auto intro: prefix_order.trans)
qed

lemma organize_loop_inv:
  assumes cats: "\<forall>c \<in> fst ` set (categories cfg). plain c"
    and bl: "backup_log cfg"
    and free: "\<forall>p. \<not> denied fs1 p"
    and inv: "run_inv e fs1 files st"
    and pl: "\<forall>g \<in> set files. plain g" and di: "distinct files"
    and isf: "\<forall>g \<in> set files. os_path_isfile fs1 (desktop_dir e @ CHR ''/'' # g)"
    and d1: "distinct (map new_location (ops (organize_loop cfg e files st)))"
    and d2: "\<forall>op \<in> set (ops (organize_loop cfg e files st)).
               (deep (desktop_dir e) (new_location op) \<longrightarrow> \<not> os_path_isdir fs1 (new_location op)) \<and>
               original op \<noteq> desktop_dir e @ CHR ''/'' # others_name"
  shows "run_inv e fs1 [] (organize_loop cfg e files st)"
  using inv pl di isf d1 d2
proof (induction files arbitrary: st)
  case Nil
  then show ?case by simp
next
  case (Cons g files)
  let ?st = "organize_step cfg e g st"
  let ?final = "ops (organize_loop cfg e files ?st)"
  have fin: "ops (organize_loop cfg e (g # files) st) = ?final" by simp
  have p1: "prefix (ops ?st) ?final" by (rule organize_loop_prefix)
  have p0: "prefix (ops st) (ops ?st)"
    using organize_step_ops [of cfg e g st] by auto
  have sub1: "set (ops ?st) \<subseteq> set ?final" using p1 by (rule set_mono_prefix)
  have sub0: "set (ops st) \<subseteq> set (ops ?st)" using p0 by (rule set_mono_prefix)
  have dst: "distinct (map new_location (ops ?st))"
  proof -
    from p1 obtain zs where "?final = ops ?st @ zs" by (auto simp: prefix_def)
    with Cons.prems(5) [unfolded fin] show ?thesis by simp
  qed
  have co: "\<forall>op \<in> set (ops st). original op \<noteq> desktop_dir e @ CHR ''/'' # others_name"
    using Cons.prems(6) [unfolded fin] sub0 sub1 by blast
  have cl: "\<forall>rec. ops ?st = ops st @ [rec] \<longrightarrow>
               new_location rec \<notin> new_location ` set (ops st) \<and>
               (deep (desktop_dir e) (new_location rec) \<longrightarrow>
                  \<not> os_path_isdir fs1 (new_location rec))"
  proof (intro allI impI)
    fix rec assume a: "ops ?st = ops st @ [rec]"
    then have "rec \<in> set ?final" using sub1 by auto
    then have "deep (desktop_dir e) (new_location rec) \<longrightarrow> \<not> os_path_isdir fs1 (new_location rec)"
      using Cons.prems(6) [unfolded fin] by blast
    moreover have "new_location rec \<notin> new_location ` set (ops st)"
      using dst a by simp
    ultimately show "new_location rec \<notin> new_location ` set (ops st) \<and>
               (deep (desktop_dir e) (new_location rec) \<longrightarrow>
                  \<not> os_path_isdir fs1 (new_location rec))" by simp
  qed
  have g: "plain g" "g \<notin> set files" "os_path_isfile fs1 (desktop_dir e @ CHR ''/'' # g)"
    using Cons.prems(2,3,4) by simp_all
  have inv': "run_inv e fs1 files ?st"
    by (rule organize_step_inv [OF cats bl free Cons.prems(1) g(1) g(2) g(3) co cl])
  have "run_inv e fs1 [] (organize_loop cfg e files ?st)"
    using Cons.IH [OF inv'] Cons.prems(2,3,4,5,6) by simp
  then show ?case by simp
qed

lemma make_dirs_only_dirs:
  "make_dirs fs d cs = (fs', err) \<Longrightarrow>
     (\<forall>p. nodes fs' p = nodes fs p \<or>
          (nodes fs p = None \<and> nodes fs' p = Some Dir \<and> p \<in> os_path_join d ` set cs))"
proof (induction cs arbitrary: fs)
  case Nil
  then show ?case by simp
next
  case (Cons c cs)
  show ?case
  proof (cases "os_makedirs fs (os_path_join d c)")
    case (Inl e)
    with Cons.prems show ?thesis by simp
  next
    case (Inr fs1)
    have f1: "\<forall>p. nodes fs1 p = nodes fs p \<or>
             (nodes fs p = None \<and> nodes fs1 p = Some Dir \<and> p = os_path_join d c)"
    proof
      fix p
      from os_makedirs_cases [OF Inr]
      show "nodes fs1 p = nodes fs p \<or>
             (nodes fs p = None \<and> nodes fs1 p = Some Dir \<and> p = os_path_join d c)"
        by (cases "p = os_path_join d c") auto
    qed
    from Cons.prems Inr have "make_dirs fs1 d cs = (fs', err)" by simp
    from Cons.IH [OF this] have
      f2: "\<forall>p. nodes fs' p = nodes fs1 p \<or>
             (nodes fs1 p = None \<and> nodes fs' p = Some Dir \<and> p \<in> os_path_join d ` set cs)" .
    show ?thesis
    proof
      fix p
      from f1 f2 have "nodes fs1 p = nodes fs p \<or>
             (nodes fs p = None \<and> nodes fs1 p = Some Dir \<and> p = os_path_join d c)"
        and "nodes fs' p = nodes fs1 p \<or>
             (nodes fs1 p = None \<and> nodes fs' p = Some Dir \<and> p \<in> os_path_join d ` set cs)"
        by blast+
      then show "nodes fs' p = nodes fs p \<or>
          (nodes fs p = None \<and> nodes fs' p = Some Dir \<and> p \<in> os_path_join d ` set (c # cs))"
        by auto
    qed
  qed
qed

lemma records_of_record_json: "records_of (map record_json rs) = Inr rs"
  by (induction rs) (simp_all add: record_of_def record_json_def)

lemma read_written_log:
  "nodes fs p = Some (File (Json (log_json l))) \<Longrightarrow> read_log fs p = Inr (operations l)"
  by (simp add: read_log_def load_json_def log_json_def records_of_record_json)

end
